theory Spec2Isabelle
  imports Complex_Main "HOL-Library.Sublist"
begin

section \<open>Python values and strings\<close>

text \<open>
  Python strings are sequences of code points. The model uses \<open>string\<close>, whose
  characters cover the code points 0..255. \<open>str.isalnum\<close> is Python's predicate on
  that range: the ASCII letters and digits, and the letters and numeric characters of
  the Latin-1 block (code points 170, 178, 179, 181, 185, 186, 188..190, 192..214,
  216..246, 248..255).
\<close>

definition char_isalnum :: "char \<Rightarrow> bool" where
  "char_isalnum c =
     (let n = (of_char c :: nat) in
        (48 \<le> n \<and> n \<le> 57) \<or> (65 \<le> n \<and> n \<le> 90) \<or> (97 \<le> n \<and> n \<le> 122) \<or>
        n = 170 \<or> n = 178 \<or> n = 179 \<or> n = 181 \<or> n = 185 \<or> n = 186 \<or>
        (188 \<le> n \<and> n \<le> 190) \<or> (192 \<le> n \<and> n \<le> 214) \<or>
        (216 \<le> n \<and> n \<le> 246) \<or> (248 \<le> n \<and> n \<le> 255))"

text \<open>The character class \<open>[A-Za-z0-9]\<close>.\<close>

definition ascii_alnum :: "char \<Rightarrow> bool" where
  "ascii_alnum c =
     (let n = (of_char c :: nat) in
        (48 \<le> n \<and> n \<le> 57) \<or> (65 \<le> n \<and> n \<le> 90) \<or> (97 \<le> n \<and> n \<le> 122))"

text \<open>\<open>s.isalnum()\<close>: the string is not empty and every character is alphanumeric.\<close>

definition str_isalnum :: "string \<Rightarrow> bool" where
  "str_isalnum s = (s \<noteq> [] \<and> list_all char_isalnum s)"

text \<open>\<open>s.split(sep)\<close> for a one-character separator: never the empty list.\<close>

fun split_chr :: "char \<Rightarrow> string \<Rightarrow> string list" where
  "split_chr sep [] = [[]]"
| "split_chr sep (c # cs) =
     (if c = sep then [] # split_chr sep cs
      else (case split_chr sep cs of
              [] \<Rightarrow> [[c]]
            | p # ps \<Rightarrow> (c # p) # ps))"

text \<open>\<open>s.replace('_', '')\<close>.\<close>

definition remove_underscores :: "string \<Rightarrow> string" where
  "remove_underscores s = filter (\<lambda>c. c \<noteq> CHR ''_'') s"

datatype exn =
    OperationalError string
  | IntegrityError string
  | ProgrammingError string
  | InterfaceError string
  | PandasDatabaseError string
  | ValueError string
  | AttributeError string
  | TypeError string
  | OverflowError string

section \<open>Stream handle derivation\<close>

text \<open>
  \<open>SpotifyAnalyzer.get_user_table_name\<close>. The handler around the body logs and raises
  again, so the result is the body's.
\<close>

definition sanitize :: "string \<Rightarrow> string" where
  "sanitize username = map (\<lambda>c. if char_isalnum c then c else CHR ''_'') username"

definition get_user_table_name :: "string \<Rightarrow> exn + string" where
  "get_user_table_name user_uri =
     (let username = last (split_chr (CHR '':'') user_uri);
          sanitized_name = sanitize username;
          table_name = ''user_'' @ sanitized_name @ ''_listening_activity''
      in if \<not> str_isalnum (remove_underscores table_name)
         then Inl (ValueError ''Invalid table name generated from URI'')
         else Inr table_name)"


section \<open>Payloads\<close>

text \<open>
  What \<open>response.json()\<close> returns: a JSON value. An object is a list of keys with
  their values, in the order of the document. Python floats are modelled as reals
  (rounding is not modelled).
\<close>

datatype json =
    JNull
  | JBool bool
  | JInt int
  | JFloat real
  | JStr string
  | JArr "json list"
  | JObj "(string \<times> json) list"

text \<open>\<open>d.get(key, default)\<close>: only a dict has the method.\<close>

fun dict_get :: "json \<Rightarrow> string \<Rightarrow> json \<Rightarrow> exn + json" where
  "dict_get (JObj kvs) key dflt = Inr (case map_of kvs key of None \<Rightarrow> dflt | Some v \<Rightarrow> v)"
| "dict_get _ key dflt = Inl (AttributeError ''object has no attribute get'')"



section \<open>Event filter\<close>







section \<open>Storage\<close>

text \<open>
  A value stored in a column, and a row as the list of its columns in the order of the
  \<open>CREATE TABLE\<close> statement. A table is the list of its rows in insertion order;
  a core table that does not exist is \<open>None\<close>. The per-listener tables are
  found by name. Table names are compared exactly.
\<close>

datatype sqlval = SNull | SInt int | SReal real | SText string

type_synonym row = "sqlval list"

record database =
  users_tbl :: "row list option"
  tracks_tbl :: "row list option"
  user_tables_tbl :: "row list option"
  streams :: "(string \<times> row list) list"
  indexes :: "string list"

datatype log_level = DEBUG | INFO | WARNING | ERROR

text \<open>
  The state the analyzer works on. \<open>committed\<close> is the database file; \<open>conn\<close> is
  the connection cached in the thread-local storage, \<open>view\<close> what that connection
  sees (its uncommitted changes included) and \<open>in_txn\<close> whether it has a transaction
  open. \<open>faults\<close> is the script of what the storage engine answers to the next
  statements: \<open>Some e\<close> makes the statement raise \<open>e\<close>, \<open>None\<close> (or an
  exhausted script) lets it run. \<open>slept\<close> records the calls of \<open>time.sleep\<close>,
  \<open>clock\<close> is \<open>int(time.time())\<close>, and \<open>log\<close> holds the level and the fixed
  text of every logged message.
\<close>

record world =
  committed :: database
  view :: database
  in_txn :: bool
  conn :: "nat option"
  next_conn :: nat
  faults :: "exn option list"
  slept :: "nat list"
  clock :: nat
  log :: "(log_level \<times> string) list"

type_synonym 'a action = "world \<Rightarrow> (exn + 'a) \<times> world"

definition log_msg :: "log_level \<Rightarrow> string \<Rightarrow> world \<Rightarrow> world" where
  "log_msg level msg w = w\<lparr>log := log w @ [(level, msg)]\<rparr>"

definition sleep :: "nat \<Rightarrow> world \<Rightarrow> world" where
  "sleep seconds w = w\<lparr>slept := slept w @ [seconds], clock := clock w + seconds\<rparr>"

text \<open>
  \<open>get_db_connection\<close>: the cached connection, or a new one, which sees the committed
  database. The result is the handle of the connection.
\<close>

definition get_db_connection :: "world \<Rightarrow> nat \<times> world" where
  "get_db_connection w =
     (case conn w of
        Some h \<Rightarrow> (h, w)
      | None \<Rightarrow>
          (next_conn w,
           w\<lparr>conn := Some (next_conn w), next_conn := Suc (next_conn w),
             view := committed w, in_txn := False\<rparr>))"

text \<open>\<open>close_db_connection\<close>: closing drops what the connection had not committed.\<close>

definition close_db_connection :: "world \<Rightarrow> world" where
  "close_db_connection w =
     (case conn w of
        Some h \<Rightarrow> w\<lparr>conn := None, in_txn := False\<rparr>
      | None \<Rightarrow> w)"

section \<open>Retrying writer\<close>

text \<open>\<open>sub in s\<close> for strings.\<close>

fun str_contains :: "string \<Rightarrow> string \<Rightarrow> bool" where
  "str_contains sub [] = (sub = [])"
| "str_contains sub (c # cs) = (prefix sub (c # cs) \<or> str_contains sub cs)"

text \<open>
  The test of the handler in \<open>with_db_retry\<close>: an \<open>sqlite3.OperationalError\<close> whose
  text contains \<open>database is locked\<close>.
\<close>

fun is_locked :: "exn \<Rightarrow> bool" where
  "is_locked (OperationalError msg) = str_contains ''database is locked'' msg"
| "is_locked _ = False"

text \<open>
  What the handler does before the next attempt: the warning, the sleep of
  \<open>delay * 2 ** attempt\<close> seconds, and the release of the cached connection.
\<close>

definition backoff :: "nat \<Rightarrow> nat \<Rightarrow> world \<Rightarrow> world" where
  "backoff delay attempt w =
     close_db_connection
       (sleep (delay * 2 ^ attempt) (log_msg WARNING ''Database locked, retrying'' w))"

text \<open>
  The loop \<open>for attempt in range(max_attempts)\<close> of the wrapper, and
  \<open>raise last_error\<close> after it (with no attempt made, \<open>last_error\<close> is \<open>None\<close> and
  the \<open>raise\<close> is a \<open>TypeError\<close>).
\<close>

fun retry_attempts :: "nat list \<Rightarrow> nat \<Rightarrow> 'a action \<Rightarrow> exn option \<Rightarrow> 'a action" where
  "retry_attempts [] delay func last_error w =
     (case last_error of
        None \<Rightarrow> (Inl (TypeError ''exceptions must derive from BaseException''), w)
      | Some e \<Rightarrow> (Inl e, w))"
| "retry_attempts (attempt # rest) delay func last_error w =
     (case func w of
        (Inr v, w1) \<Rightarrow> (Inr v, w1)
      | (Inl e, w1) \<Rightarrow>
          if is_locked e
          then retry_attempts rest delay func (Some e) (backoff delay attempt w1)
          else (Inl e, w1))"

definition with_db_retry :: "nat \<Rightarrow> nat \<Rightarrow> 'a action \<Rightarrow> 'a action" where
  "with_db_retry max_attempts delay func = retry_attempts [0..<max_attempts] delay func None"

text \<open>
  For the statement of the retry policy: the state in which attempt \<open>k\<close> starts when
  every earlier attempt met contention, and whether an attempt meets contention.
\<close>

fun attempt_world :: "nat \<Rightarrow> 'a action \<Rightarrow> nat \<Rightarrow> world \<Rightarrow> world" where
  "attempt_world delay func 0 w = w"
| "attempt_world delay func (Suc k) w =
     backoff delay k (snd (func (attempt_world delay func k w)))"

definition contended :: "'a action \<Rightarrow> world \<Rightarrow> bool" where
  "contended func w = (case fst (func w) of Inl e \<Rightarrow> is_locked e | Inr v \<Rightarrow> False)"

text \<open>
  One statement on the storage engine that does nothing else: it raises what the script
  of faults holds for it, or returns.
\<close>

definition probe :: "unit action" where
  "probe w =
     (case faults w of
        Some e # rest \<Rightarrow> (Inl e, w\<lparr>faults := rest\<rparr>)
      | None # rest \<Rightarrow> (Inr (), w\<lparr>faults := rest\<rparr>)
      | [] \<Rightarrow> (Inr (), w))"

text \<open>
  A database file with no table, and the state of a process that starts on it at time
  \<open>t\<close> with the script of faults \<open>fs\<close>.
\<close>

definition no_tables :: database where
  "no_tables = \<lparr>users_tbl = None, tracks_tbl = None, user_tables_tbl = None,
                 streams = [], indexes = []\<rparr>"

definition start_world :: "database \<Rightarrow> exn option list \<Rightarrow> nat \<Rightarrow> world" where
  "start_world db fs t =
     \<lparr>committed = db, view = db, in_txn = False, conn = None, next_conn = 0,
      faults = fs, slept = [], clock = t, log = []\<rparr>"

section \<open>Statements\<close>

text \<open>Sequencing of actions: an exception ends the sequence.\<close>

definition and_then :: "'a action \<Rightarrow> ('a \<Rightarrow> 'b action) \<Rightarrow> 'b action" where
  "and_then m f w = (case m w of (Inl e, w1) \<Rightarrow> (Inl e, w1) | (Inr v, w1) \<Rightarrow> f v w1)"

definition return_val :: "'a \<Rightarrow> 'a action" where
  "return_val v w = (Inr v, w)"

definition raise_exn :: "exn \<Rightarrow> 'a action" where
  "raise_exn e w = (Inl e, w)"

text \<open>\<open>try: m except ...: handler; raise\<close>: the handler runs and the exception goes on.\<close>

definition on_error :: "'a action \<Rightarrow> (exn \<Rightarrow> world \<Rightarrow> world) \<Rightarrow> 'a action" where
  "on_error m handler w =
     (case m w of (Inl e, w1) \<Rightarrow> (Inl e, handler e w1) | (Inr v, w1) \<Rightarrow> (Inr v, w1))"

text \<open>
  The statements follow the \<open>sqlite3\<close> module in its default transaction mode: an
  \<open>INSERT\<close> opens a transaction when none is open; a \<open>CREATE\<close> runs in the open
  transaction, or is committed at once when none is open; a \<open>SELECT\<close> changes
  nothing. A statement on a connection that is not the cached one is a statement on a
  closed connection.
\<close>

datatype stmt_kind = Query | DDL | DML

definition execute ::
  "nat \<Rightarrow> stmt_kind \<Rightarrow> (database \<Rightarrow> exn + 'a \<times> database) \<Rightarrow> 'a action" where
  "execute h kind stmt w =
     (if conn w \<noteq> Some h
      then (Inl (ProgrammingError ''Cannot operate on a closed database.''), w)
      else (case faults w of
              Some e # rest \<Rightarrow> (Inl e, w\<lparr>faults := rest\<rparr>)
            | _ \<Rightarrow>
                (case stmt (view w) of
                   Inl e \<Rightarrow> (Inl e, w\<lparr>faults := tl (faults w)\<rparr>)
                 | Inr (r, db) \<Rightarrow>
                     (Inr r,
                      w\<lparr>faults := tl (faults w), view := db,
                        in_txn := (in_txn w \<or> kind = DML),
                        committed := (if in_txn w \<or> kind \<noteq> DDL then committed w else db)\<rparr>))))"

text \<open>\<open>conn.commit()\<close>: nothing to do without an open transaction.\<close>

definition commit :: "nat \<Rightarrow> unit action" where
  "commit h w =
     (if conn w \<noteq> Some h
      then (Inl (ProgrammingError ''Cannot operate on a closed database.''), w)
      else if \<not> in_txn w then (Inr (), w)
      else (case faults w of
              Some e # rest \<Rightarrow> (Inl e, w\<lparr>faults := rest\<rparr>)
            | _ \<Rightarrow> (Inr (), w\<lparr>faults := tl (faults w), committed := view w, in_txn := False\<rparr>)))"

definition rollback :: "nat \<Rightarrow> unit action" where
  "rollback h w =
     (if conn w \<noteq> Some h
      then (Inl (ProgrammingError ''Cannot operate on a closed database.''), w)
      else (Inr (), w\<lparr>view := committed w, in_txn := False\<rparr>))"

text \<open>
  \<open>with conn: body\<close>: the connection commits when the body returns and rolls back
  when it raises; an error of the commit or of the rollback is the one that is raised.
\<close>

definition with_conn :: "nat \<Rightarrow> 'a action \<Rightarrow> 'a action" where
  "with_conn h body w =
     (case body w of
        (Inr v, w1) \<Rightarrow>
          (case commit h w1 of (Inl e, w2) \<Rightarrow> (Inl e, w2) | (Inr u, w2) \<Rightarrow> (Inr v, w2))
      | (Inl e, w1) \<Rightarrow>
          (case rollback h w1 of (Inl e2, w2) \<Rightarrow> (Inl e2, w2) | (Inr u, w2) \<Rightarrow> (Inl e, w2)))"

text \<open>
  \<open>conn.executescript(script)\<close>: commits the open transaction, then runs the script,
  each statement committed at once.
\<close>

definition executescript :: "nat \<Rightarrow> (database \<Rightarrow> database) \<Rightarrow> unit action" where
  "executescript h script w =
     (if conn w \<noteq> Some h
      then (Inl (ProgrammingError ''Cannot operate on a closed database.''), w)
      else (case faults w of
              Some e # rest \<Rightarrow> (Inl e, w\<lparr>faults := rest\<rparr>)
            | _ \<Rightarrow>
                (Inr (), w\<lparr>faults := tl (faults w), view := script (view w),
                         committed := script (view w), in_txn := False\<rparr>)))"

section \<open>Schema\<close>

text \<open>\<open>CREATE TABLE IF NOT EXISTS\<close> for the three core tables.\<close>

definition create_if_absent :: "row list option \<Rightarrow> row list option" where
  "create_if_absent t = (case t of None \<Rightarrow> Some [] | Some rows \<Rightarrow> Some rows)"

definition baseline_schema :: "database \<Rightarrow> database" where
  "baseline_schema db =
     db\<lparr>users_tbl := create_if_absent (users_tbl db),
        tracks_tbl := create_if_absent (tracks_tbl db),
        user_tables_tbl := create_if_absent (user_tables_tbl db)\<rparr>"

text \<open>\<open>SpotifyAnalyzer.init_database\<close>.\<close>

definition init_database :: "unit action" where
  "init_database w =
     (case get_db_connection w of
        (h, w1) \<Rightarrow>
          with_conn h (and_then (executescript h baseline_schema) (\<lambda>u. commit h)) w1)"

text \<open>
  \<open>SELECT name FROM sqlite_master WHERE type='table' AND name=?\<close>: whether the
  parameter is the name of a table. (\<open>sqlite_sequence\<close> exists once a table with an
  \<open>AUTOINCREMENT\<close> column has been created.)
\<close>

definition table_exists :: "database \<Rightarrow> sqlval \<Rightarrow> bool" where
  "table_exists db name =
     (case name of
        SText n \<Rightarrow>
          n \<in> set (map fst (streams db)) \<or>
          (n = ''users'' \<and> users_tbl db \<noteq> None) \<or>
          (n = ''tracks'' \<and> tracks_tbl db \<noteq> None) \<or>
          (n = ''user_tables'' \<and> user_tables_tbl db \<noteq> None) \<or>
          (n = ''sqlite_sequence'' \<and> streams db \<noteq> [])
      | _ \<Rightarrow> False)"

definition select_master :: "sqlval \<Rightarrow> database \<Rightarrow> exn + bool \<times> database" where
  "select_master name db = Inr (table_exists db name, db)"

text \<open>\<open>CREATE TABLE IF NOT EXISTS\<close> for a per-listener table, and its index.\<close>

definition create_stream_table :: "string \<Rightarrow> database \<Rightarrow> exn + unit \<times> database" where
  "create_stream_table table_name db =
     Inr ((), if table_exists db (SText table_name) then db
              else db\<lparr>streams := streams db @ [(table_name, [])]\<rparr>)"

definition create_index :: "string \<Rightarrow> string \<Rightarrow> database \<Rightarrow> exn + unit \<times> database" where
  "create_index index_name table_name db =
     (if table_name \<notin> set (map fst (streams db))
      then Inl (OperationalError ''no such table'')
      else Inr ((), if index_name \<in> set (indexes db) then db
                    else db\<lparr>indexes := indexes db @ [index_name]\<rparr>))"

text \<open>
  \<open>INSERT OR REPLACE\<close> on a table whose first column is the primary key: the rows
  with the same key go and the new row comes last. A \<open>NULL\<close> key conflicts with no
  row. Column affinity is not modelled: a value is stored as it is bound.
\<close>

definition upsert :: "row \<Rightarrow> row list \<Rightarrow> row list" where
  "upsert r rows =
     (if hd r = SNull then rows @ [r]
      else filter (\<lambda>x. hd x \<noteq> hd r) rows @ [r])"

definition insert_user_table ::
  "sqlval \<Rightarrow> sqlval \<Rightarrow> sqlval \<Rightarrow> database \<Rightarrow> exn + unit \<times> database" where
  "insert_user_table user_uri table_name created_at db =
     (case user_tables_tbl db of
        None \<Rightarrow> Inl (OperationalError ''no such table: user_tables'')
      | Some rows \<Rightarrow>
          if table_name = SNull \<or> created_at = SNull
          then Inl (IntegrityError ''NOT NULL constraint failed'')
          else Inr ((), db\<lparr>user_tables_tbl :=
                           Some (upsert [user_uri, table_name, created_at] rows)\<rparr>))"

text \<open>
  Binding a Python value to a statement parameter: a list or a dict cannot be bound, an
  integer must fit 64 bits.
\<close>

fun bind_param :: "json \<Rightarrow> exn + sqlval" where
  "bind_param JNull = Inr SNull"
| "bind_param (JBool b) = Inr (SInt (if b then 1 else 0))"
| "bind_param (JInt n) =
     (if - (2 ^ 63) \<le> n \<and> n < 2 ^ 63 then Inr (SInt n)
      else Inl (OverflowError ''Python int too large to convert to SQLite INTEGER''))"
| "bind_param (JFloat x) = Inr (SReal x)"
| "bind_param (JStr s) = Inr (SText s)"
| "bind_param (JArr xs) = Inl (InterfaceError ''Error binding parameter'')"
| "bind_param (JObj kvs) = Inl (InterfaceError ''Error binding parameter'')"

fun bind_params :: "json list \<Rightarrow> exn + sqlval list" where
  "bind_params [] = Inr []"
| "bind_params (p # ps) =
     (case bind_param p of
        Inl e \<Rightarrow> Inl e
      | Inr v \<Rightarrow> (case bind_params ps of Inl e \<Rightarrow> Inl e | Inr vs \<Rightarrow> Inr (v # vs)))"

text \<open>
  \<open>cursor.execute(sql, params)\<close>: the cursor is made on an open connection, the
  parameters are bound, and the statement runs.
\<close>

definition execute_with ::
  "nat \<Rightarrow> stmt_kind \<Rightarrow> json list \<Rightarrow> (sqlval list \<Rightarrow> database \<Rightarrow> exn + 'a \<times> database)
     \<Rightarrow> 'a action" where
  "execute_with h kind params stmt w =
     (if conn w \<noteq> Some h
      then (Inl (ProgrammingError ''Cannot operate on a closed database.''), w)
      else (case bind_params params of
              Inl e \<Rightarrow> (Inl e, w)
            | Inr vs \<Rightarrow> execute h kind (stmt vs) w))"

section \<open>Stream provisioning\<close>

text \<open>The method \<open>split\<close> exists on a string only.\<close>

fun table_name_of :: "json \<Rightarrow> exn + string" where
  "table_name_of (JStr user_uri) = get_user_table_name user_uri"
| "table_name_of _ = Inl (AttributeError ''object has no attribute split'')"

text \<open>
  \<open>SpotifyAnalyzer.create_user_table\<close>: the body, its handler, and the method as the
  decorator leaves it.
\<close>

text \<open>
  The statements of the branch that creates the table. The third parameter of the
  \<open>INSERT\<close> is \<open>int(time.time())\<close>, an integer that fits.
\<close>

definition provision_stream :: "nat \<Rightarrow> json \<Rightarrow> string \<Rightarrow> unit action" where
  "provision_stream h user_uri table_name =
     and_then (execute h DDL (create_stream_table table_name)) (\<lambda>u.
     and_then (execute h DDL
                 (create_index (''idx_'' @ table_name @ ''_timestamp'') table_name)) (\<lambda>u.
     and_then (\<lambda>w. execute_with h DML [user_uri, JStr table_name]
                       (\<lambda>vs. insert_user_table (vs ! 0) (vs ! 1) (SInt (int (clock w)))) w) (\<lambda>u.
     commit h)))"

definition create_user_table_body :: "json \<Rightarrow> string action" where
  "create_user_table_body user_uri =
     on_error
       (\<lambda>w. case table_name_of user_uri of
              Inl e \<Rightarrow> (Inl e, log_msg ERROR ''Error generating table name for URI'' w)
            | Inr table_name \<Rightarrow>
                (case get_db_connection w of
                   (h, w1) \<Rightarrow>
                     and_then (execute_with h Query [JStr table_name]
                                 (\<lambda>vs. select_master (vs ! 0))) (\<lambda>found.
                     and_then (if \<not> found
                               then (\<lambda>w2. provision_stream h user_uri table_name
                                             (log_msg INFO ''Creating new table for user'' w2))
                               else return_val ()) (\<lambda>u.
                     return_val table_name)) w1))
       (\<lambda>e. log_msg ERROR ''Error creating table for user'')"

definition create_user_table :: "json \<Rightarrow> string action" where
  "create_user_table user_uri = with_db_retry 3 1 (create_user_table_body user_uri)"

section \<open>Ingestion\<close>

text \<open>The truth value of a Python value, \<open>a or b\<close>, and \<open>':' in v\<close>.\<close>

fun truthy :: "json \<Rightarrow> bool" where
  "truthy JNull = False"
| "truthy (JBool b) = b"
| "truthy (JInt n) = (n \<noteq> 0)"
| "truthy (JFloat x) = (x \<noteq> 0)"
| "truthy (JStr s) = (s \<noteq> [])"
| "truthy (JArr xs) = (xs \<noteq> [])"
| "truthy (JObj kvs) = (kvs \<noteq> [])"

definition py_or :: "json \<Rightarrow> json \<Rightarrow> json" where
  "py_or a b = (if truthy a then a else b)"

fun contains_colon :: "json \<Rightarrow> exn + bool" where
  "contains_colon (JStr s) = Inr (CHR '':'' \<in> set s)"
| "contains_colon (JArr xs) = Inr (JStr '':'' \<in> set xs)"
| "contains_colon (JObj kvs) = Inr ('':'' \<in> set (map fst kvs))"
| "contains_colon _ = Inl (TypeError ''argument is not iterable'')"

definition then_sum :: "exn + 'a \<Rightarrow> ('a \<Rightarrow> exn + 'b) \<Rightarrow> exn + 'b" where
  "then_sum m f = (case m of Inl e \<Rightarrow> Inl e | Inr v \<Rightarrow> f v)"

text \<open>The dataclasses \<open>User\<close> and \<open>Track\<close>; a field holds whatever the payload had.\<close>

record User =
  user_uri :: json
  user_name :: json
  user_image_url :: json

record Track =
  track_uri :: json
  track_name :: json
  track_image_url :: json
  album_uri :: json
  album_name :: json
  artist_uri :: json
  artist_name :: json
  context_uri :: json
  context_name :: json
  context_index :: json

text \<open>
  The first part of \<open>store_activity\<close>, up to the validation of the user URI: it
  raises, or returns early after logging an error (\<open>Rejected\<close> with the text of the
  message), or goes on with the user and the track.
\<close>

datatype parsed = Rejected string | Accepted User Track

definition read_user :: "json \<Rightarrow> exn + User" where
  "read_user user_data =
     then_sum (dict_get user_data ''uri'' (JStr [])) (\<lambda>uri.
     then_sum (dict_get user_data ''name'' (JStr ''Unknown'')) (\<lambda>name.
     then_sum (dict_get user_data ''imageUrl'' JNull) (\<lambda>img1.
     then_sum (dict_get user_data ''image_url'' JNull) (\<lambda>img2.
     Inr \<lparr>user_uri = uri, user_name = name, user_image_url = py_or img1 img2\<rparr>))))"

definition read_track :: "json \<Rightarrow> json \<Rightarrow> json \<Rightarrow> json \<Rightarrow> exn + Track" where
  "read_track track_data album_data artist_data context_data =
     then_sum (dict_get track_data ''uri'' (JStr [])) (\<lambda>uri.
     then_sum (dict_get track_data ''name'' (JStr ''Unknown'')) (\<lambda>name.
     then_sum (dict_get track_data ''imageUrl'' JNull) (\<lambda>img1.
     then_sum (dict_get track_data ''image_url'' JNull) (\<lambda>img2.
     then_sum (dict_get album_data ''uri'' JNull) (\<lambda>al_uri.
     then_sum (dict_get album_data ''name'' JNull) (\<lambda>al_name.
     then_sum (dict_get artist_data ''uri'' JNull) (\<lambda>ar_uri.
     then_sum (dict_get artist_data ''name'' JNull) (\<lambda>ar_name.
     then_sum (dict_get context_data ''uri'' JNull) (\<lambda>c_uri.
     then_sum (dict_get context_data ''name'' JNull) (\<lambda>c_name.
     then_sum (dict_get context_data ''index'' JNull) (\<lambda>c_index.
     Inr \<lparr>track_uri = uri, track_name = name, track_image_url = py_or img1 img2,
          album_uri = al_uri, album_name = al_name,
          artist_uri = ar_uri, artist_name = ar_name,
          context_uri = c_uri, context_name = c_name, context_index = c_index\<rparr>)))))))))))"

definition is_dict :: "json \<Rightarrow> bool" where
  "is_dict v = (case v of JObj kvs \<Rightarrow> True | _ \<Rightarrow> False)"

definition parse_activity :: "json \<Rightarrow> exn + parsed" where
  "parse_activity activity_data =
     (if \<not> is_dict activity_data then Inr (Rejected ''Invalid activity data'')
      else
        then_sum (dict_get activity_data ''user'' (JObj [])) (\<lambda>user_data.
        then_sum (dict_get activity_data ''track'' (JObj [])) (\<lambda>track_data.
        then_sum (dict_get track_data ''album'' (JObj [])) (\<lambda>album_data.
        then_sum (dict_get track_data ''artist'' (JObj [])) (\<lambda>artist_data.
        then_sum (dict_get track_data ''context'' (JObj [])) (\<lambda>context_data.
        if \<not> truthy user_data \<or> \<not> truthy track_data
        then Inr (Rejected ''Missing required fields in activity data'')
        else
          then_sum (read_user user_data) (\<lambda>user.
          then_sum (if \<not> truthy (user_uri user) then Inr True
                    else then_sum (contains_colon (user_uri user)) (\<lambda>c. Inr (\<not> c)))
            (\<lambda>invalid.
          if invalid then Inr (Rejected ''Invalid user URI'')
          else
            then_sum (read_track track_data album_data artist_data context_data) (\<lambda>track.
            Inr (Accepted user track))))))))))"

text \<open>The three \<open>INSERT\<close> statements of \<open>store_activity\<close>.\<close>

definition insert_user :: "sqlval list \<Rightarrow> database \<Rightarrow> exn + unit \<times> database" where
  "insert_user vs db =
     (case users_tbl db of
        None \<Rightarrow> Inl (OperationalError ''no such table: users'')
      | Some rows \<Rightarrow>
          if vs ! 1 = SNull then Inl (IntegrityError ''NOT NULL constraint failed: users.name'')
          else Inr ((), db\<lparr>users_tbl := Some (upsert vs rows)\<rparr>))"

definition insert_track :: "sqlval list \<Rightarrow> database \<Rightarrow> exn + unit \<times> database" where
  "insert_track vs db =
     (case tracks_tbl db of
        None \<Rightarrow> Inl (OperationalError ''no such table: tracks'')
      | Some rows \<Rightarrow>
          if vs ! 1 = SNull then Inl (IntegrityError ''NOT NULL constraint failed: tracks.name'')
          else Inr ((), db\<lparr>tracks_tbl := Some (upsert vs rows)\<rparr>))"

text \<open>
  The row appended to a per-listener table: the \<open>AUTOINCREMENT\<close> identifier (rows are
  never deleted, so it is the number of rows plus one) and the bound values.
\<close>

definition append_row :: "string \<Rightarrow> sqlval list \<Rightarrow> (string \<times> row list) \<Rightarrow> (string \<times> row list)" where
  "append_row table_name vs t =
     (if fst t = table_name then (fst t, snd t @ [SInt (int (length (snd t)) + 1) # vs]) else t)"

definition insert_event :: "string \<Rightarrow> sqlval list \<Rightarrow> database \<Rightarrow> exn + unit \<times> database" where
  "insert_event table_name vs db =
     (if table_name \<notin> set (map fst (streams db))
      then Inl (OperationalError ''no such table'')
      else if vs ! 0 = SNull \<or> vs ! 1 = SNull
      then Inl (IntegrityError ''NOT NULL constraint failed'')
      else Inr ((), db\<lparr>streams := map (append_row table_name vs) (streams db)\<rparr>))"

text \<open>The subclasses of \<open>sqlite3.Error\<close>.\<close>

fun is_sqlite_error :: "exn \<Rightarrow> bool" where
  "is_sqlite_error (OperationalError m) = True"
| "is_sqlite_error (IntegrityError m) = True"
| "is_sqlite_error (ProgrammingError m) = True"
| "is_sqlite_error (InterfaceError m) = True"
| "is_sqlite_error _ = False"

text \<open>
  The inner \<open>try\<close> of \<open>store_activity\<close>: the connection \<open>h\<close> was taken before it.
  Its handler logs an \<open>sqlite3.Error\<close>, and the table name once it is known.
\<close>

definition write_rows :: "nat \<Rightarrow> User \<Rightarrow> Track \<Rightarrow> json \<Rightarrow> string \<Rightarrow> unit action" where
  "write_rows h user track timestamp table_name =
     and_then (execute_with h DML [user_uri user, user_name user, user_image_url user]
                 insert_user) (\<lambda>u.
     and_then (execute_with h DML
                 [track_uri track, track_name track, track_image_url track, album_uri track,
                  album_name track, artist_uri track, artist_name track]
                 insert_track) (\<lambda>u.
     and_then (execute_with h DML
                 [timestamp, track_uri track, context_uri track, context_name track,
                  context_index track]
                 (insert_event table_name)) (\<lambda>u.
     commit h)))"

definition log_sqlite_error :: "bool \<Rightarrow> exn \<Rightarrow> world \<Rightarrow> world" where
  "log_sqlite_error named e w =
     (if is_sqlite_error e
      then (if named then log_msg ERROR ''Table name'' else (\<lambda>w. w))
             (log_msg ERROR ''SQLite error while storing activity'' w)
      else w)"

definition store_rows :: "nat \<Rightarrow> User \<Rightarrow> Track \<Rightarrow> json \<Rightarrow> unit action" where
  "store_rows h user track timestamp =
     and_then (on_error (create_user_table (user_uri user)) (log_sqlite_error False))
       (\<lambda>table_name.
          on_error (write_rows h user track timestamp table_name) (log_sqlite_error True))"

text \<open>
  \<open>SpotifyAnalyzer.store_activity\<close>: the body with its outer handler, and the method as
  the decorator leaves it.
\<close>

definition store_activity_body :: "json \<Rightarrow> unit action" where
  "store_activity_body activity_data =
     on_error
       (\<lambda>w. case parse_activity activity_data of
              Inl e \<Rightarrow> (Inl e, w)
            | Inr (Rejected msg) \<Rightarrow> (Inr (), log_msg ERROR msg w)
            | Inr (Accepted user track) \<Rightarrow>
                (case get_db_connection w of
                   (h, w1) \<Rightarrow>
                     (case dict_get activity_data ''timestamp'' JNull of
                        Inl e \<Rightarrow> (Inl e, w1)
                      | Inr timestamp \<Rightarrow> store_rows h user track timestamp w1)))
       (\<lambda>e w. log_msg ERROR ''Activity data'' (log_msg ERROR ''Error storing activity'' w))"

definition store_activity :: "json \<Rightarrow> unit action" where
  "store_activity activity_data = with_db_retry 3 1 (store_activity_body activity_data)"

section \<open>Poll loop\<close>

text \<open>
  The body of the \<open>for\<close> loop of \<open>run_collection_loop\<close> for one candidate, and the
  loop: an exception of \<open>store_activity\<close> leaves the loop.
\<close>

definition ingest_one :: "json \<Rightarrow> unit action" where
  "ingest_one activity =
     (if is_dict activity then store_activity activity
      else (\<lambda>w. (Inr (), log_msg ERROR ''Invalid activity format'' w)))"

fun ingest_all :: "json list \<Rightarrow> unit action" where
  "ingest_all [] = return_val ()"
| "ingest_all (activity # rest) = and_then (ingest_one activity) (\<lambda>u. ingest_all rest)"

text \<open>
  One iteration of \<open>while True\<close>. \<open>fetched\<close> is what \<open>fetch_friend_activity\<close>
  did in this iteration: the list it returned or the exception it raised. The
  \<open>try\<close> covers the whole iteration; both ways end with the sleep.
\<close>

definition tick_body :: "(exn + json list) \<Rightarrow> unit action" where
  "tick_body fetched =
     (case fetched of
        Inl e \<Rightarrow> raise_exn e
      | Inr activities \<Rightarrow>
          if activities = []
          then (\<lambda>w. (Inr (), log_msg INFO ''No activities found in the API response.'' w))
          else and_then (ingest_all activities)
                 (\<lambda>u w. (Inr (), log_msg INFO ''Stored activities'' w)))"

definition tick :: "nat \<Rightarrow> (exn + json list) \<Rightarrow> world \<Rightarrow> world" where
  "tick interval_seconds fetched w =
     (case tick_body fetched w of
        (Inr u, w1) \<Rightarrow> sleep interval_seconds w1
      | (Inl e, w1) \<Rightarrow>
          sleep interval_seconds (log_msg ERROR ''Error in collection loop'' w1))"

text \<open>
  \<open>SpotifyAnalyzer.run_collection_loop\<close> never returns. The model gives the state
  after the iterations whose fetches are listed.
\<close>

fun run_ticks :: "nat \<Rightarrow> (exn + json list) list \<Rightarrow> world \<Rightarrow> world" where
  "run_ticks interval_seconds [] w = w"
| "run_ticks interval_seconds (fetched # later) w =
     run_ticks interval_seconds later (tick interval_seconds fetched w)"

definition run_collection_loop :: "nat \<Rightarrow> (exn + json list) list \<Rightarrow> world \<Rightarrow> world" where
  "run_collection_loop interval_seconds fetches w =
     run_ticks interval_seconds fetches (log_msg INFO ''Starting data collection loop...'' w)"

section \<open>Queries\<close>











text \<open>
  \<open>SELECT user_uri, table_name FROM user_tables\<close>, and the \<open>UNION ALL\<close> of the
  queries of \<open>get_all_user_activities\<close> over the registry entries: for each entry,
  the rows of its table from the start time on, joined with the user rows of the
  entry's listener and with the track rows. A recorded name that is not the name of a
  stream makes the statement fail.
\<close>

definition select_user_tables :: "database \<Rightarrow> exn + row list \<times> database" where
  "select_user_tables db =
     (case user_tables_tbl db of
        None \<Rightarrow> Inl (OperationalError ''no such table: user_tables'')
      | Some rows \<Rightarrow> Inr (map (\<lambda>r. [r ! 0, r ! 1]) rows, db))"








section \<open>Structural verification\<close>

text \<open>
  \<open>SELECT name FROM sqlite_master WHERE type='table' AND name IN ('users', 'tracks',
  'user_tables')\<close>: the number of names found.
\<close>

definition select_core_tables :: "database \<Rightarrow> exn + nat \<times> database" where
  "select_core_tables db =
     Inr (length (filter (\<lambda>t. t \<noteq> None) [users_tbl db, tracks_tbl db, user_tables_tbl db]),
          db)"

text \<open>A column read from a row, as the Python value it is.\<close>

fun py_value :: "sqlval \<Rightarrow> json" where
  "py_value SNull = JNull"
| "py_value (SInt n) = JInt n"
| "py_value (SReal x) = JFloat x"
| "py_value (SText s) = JStr s"

text \<open>The loop of \<open>verify_database_structure\<close> over the rows fetched from the registry.\<close>

fun repair_entries :: "nat \<Rightarrow> row list \<Rightarrow> unit action" where
  "repair_entries h [] = return_val ()"
| "repair_entries h (entry # rest) =
     and_then (execute h Query (select_master (entry ! 1))) (\<lambda>found.
     and_then (if \<not> found
               then (\<lambda>w. case create_user_table (py_value (entry ! 0))
                               (log_msg WARNING ''Missing table for user'' w) of
                           (Inl e, w1) \<Rightarrow> (Inl e, w1)
                         | (Inr table_name, w1) \<Rightarrow> (Inr (), w1))
               else return_val ()) (\<lambda>u.
     repair_entries h rest))"

definition verify_body :: "nat \<Rightarrow> unit action" where
  "verify_body h =
     and_then (execute h Query select_core_tables) (\<lambda>existing.
     and_then (if existing < 3
               then (\<lambda>w. init_database
                           (log_msg WARNING ''Missing required tables, reinitializing database'' w))
               else return_val ()) (\<lambda>u.
     and_then (execute h Query select_user_tables) (\<lambda>entries.
     repair_entries h entries)))"

text \<open>\<open>SpotifyAnalyzer.verify_database_structure\<close>: the handler logs an
  \<open>sqlite3.Error\<close> and raises it again.\<close>

definition verify_database_structure :: "unit action" where
  "verify_database_structure w =
     (case get_db_connection w of
        (h, w1) \<Rightarrow>
          with_conn h
            (on_error (verify_body h)
               (\<lambda>e w2. if is_sqlite_error e
                        then log_msg ERROR ''Error verifying database structure'' w2 else w2))
            w1)"

text \<open>
  For the statements about the store: the database as the analyzer sees it, through its
  cached connection or, without one, in the file.
\<close>

definition current_db :: "world \<Rightarrow> database" where
  "current_db w = (if conn w = None then committed w else view w)"

text \<open>
  A connection with no open transaction sees the committed database (no other process
  writes to the file).
\<close>

definition consistent :: "world \<Rightarrow> bool" where
  "consistent w = (conn w = None \<or> in_txn w \<or> view w = committed w)"

text \<open>What the provisioning of a stream does to the database when nothing fails.\<close>

definition provisioned :: "string \<Rightarrow> string \<Rightarrow> nat \<Rightarrow> database \<Rightarrow> database" where
  "provisioned listener table_name now db =
     db\<lparr>streams := streams db @ [(table_name, [])],
        indexes := (if (''idx_'' @ table_name @ ''_timestamp'') \<in> set (indexes db)
                    then indexes db
                    else indexes db @ [''idx_'' @ table_name @ ''_timestamp'']),
        user_tables_tbl :=
          Some (upsert [SText listener, SText table_name, SInt (int now)]
                  (the (user_tables_tbl db)))\<rparr>"

text \<open>
  What an accepted event does to the database when nothing fails: the stream is
  provisioned if it is missing, then the three rows are written.
\<close>

definition ensure_stream :: "string \<Rightarrow> string \<Rightarrow> nat \<Rightarrow> database \<Rightarrow> database" where
  "ensure_stream listener table_name now db =
     (if table_name \<in> set (map fst (streams db)) then db
      else provisioned listener table_name now db)"

definition stored_rows ::
  "string \<Rightarrow> sqlval list \<Rightarrow> sqlval list \<Rightarrow> sqlval list \<Rightarrow> database \<Rightarrow> database" where
  "stored_rows table_name uvals tvals evals db =
     db\<lparr>users_tbl := Some (upsert uvals (the (users_tbl db))),
        tracks_tbl := Some (upsert tvals (the (tracks_tbl db))),
        streams := map (append_row table_name evals) (streams db)\<rparr>"

text \<open>The parameters of the three \<open>INSERT\<close> statements.\<close>

definition user_params :: "User \<Rightarrow> json list" where
  "user_params user = [user_uri user, user_name user, user_image_url user]"

definition track_params :: "Track \<Rightarrow> json list" where
  "track_params track =
     [track_uri track, track_name track, track_image_url track, album_uri track,
      album_name track, artist_uri track, artist_name track]"

definition event_params :: "json \<Rightarrow> Track \<Rightarrow> json list" where
  "event_params timestamp track =
     [timestamp, track_uri track, context_uri track, context_name track, context_index track]"

text \<open>The rows of a table with a given key, and the rows of a stream.\<close>

definition rows_with_key :: "sqlval \<Rightarrow> row list option \<Rightarrow> row list" where
  "rows_with_key k t = filter (\<lambda>r. hd r = k) (the t)"

definition stream_rows :: "database \<Rightarrow> string \<Rightarrow> row list option" where
  "stream_rows db table_name = map_of (streams db) table_name"

text \<open>
  A valid candidate event: \<open>store_activity\<close> accepts it, its listener identifier is
  a string, and its rows satisfy the \<open>NOT NULL\<close> constraints. The result is the
  listener identifier with the values of the user row, of the track row and of the
  stream row.
\<close>

definition event_values :: "json \<Rightarrow> (string \<times> sqlval list \<times> sqlval list \<times> sqlval list) option" where
  "event_values a =
     (case parse_activity a of
        Inr (Accepted user track) \<Rightarrow>
          (case user_uri user of
             JStr u \<Rightarrow>
               (case dict_get a ''timestamp'' JNull of
                  Inr ts \<Rightarrow>
                    (case bind_params (user_params user) of
                       Inr uvals \<Rightarrow>
                         (case bind_params (track_params track) of
                            Inr tvals \<Rightarrow>
                              (case bind_params (event_params ts track) of
                                 Inr evals \<Rightarrow>
                                   if uvals ! 1 \<noteq> SNull \<and> tvals ! 1 \<noteq> SNull \<and>
                                      evals ! 0 \<noteq> SNull \<and> evals ! 1 \<noteq> SNull
                                   then Some (u, uvals, tvals, evals) else None
                               | Inl e \<Rightarrow> None)
                          | Inl e \<Rightarrow> None)
                     | Inl e \<Rightarrow> None)
                | Inl e \<Rightarrow> None)
           | _ \<Rightarrow> None)
      | _ \<Rightarrow> None)"

text \<open>The rows of a stream, none when the stream does not exist.\<close>

definition rows_of :: "database \<Rightarrow> string \<Rightarrow> row list" where
  "rows_of db table_name = (case stream_rows db table_name of None \<Rightarrow> [] | Some rows \<Rightarrow> rows)"

text \<open>
  A registry entry as \<open>create_user_table\<close> writes it: the listener identifier and
  the handle derived from it.
\<close>

definition entry_ok :: "row \<Rightarrow> bool" where
  "entry_ok r =
     (2 \<le> length r \<and>
      (case r ! 0 of
         SText u \<Rightarrow> (case r ! 1 of
                       SText n \<Rightarrow> get_user_table_name u = Inr n
                     | _ \<Rightarrow> False)
       | _ \<Rightarrow> False))"

definition listener_of :: "row \<Rightarrow> string" where
  "listener_of r = (case r ! 0 of SText u \<Rightarrow> u | _ \<Rightarrow> [])"

definition handle_of :: "row \<Rightarrow> string" where
  "handle_of r = (case r ! 1 of SText n \<Rightarrow> n | _ \<Rightarrow> [])"

text \<open>
  What the verification does to the database when nothing fails: the baseline schema,
  then a stream for every entry that has none.
\<close>

fun repaired :: "nat \<Rightarrow> row list \<Rightarrow> database \<Rightarrow> database" where
  "repaired now [] db = db"
| "repaired now (entry # rest) db =
     repaired now rest (ensure_stream (listener_of entry) (handle_of entry) now db)"

definition registry_pairs :: "database \<Rightarrow> (sqlval \<times> sqlval) set" where
  "registry_pairs db = set (map (\<lambda>r. (r ! 0, r ! 1)) (the (user_tables_tbl db)))"

definition registry_entries :: "database \<Rightarrow> row list" where
  "registry_entries db = map (\<lambda>r. [r ! 0, r ! 1]) (the (user_tables_tbl db))"

text \<open>A registry that exists and whose entries are as \<open>create_user_table\<close> writes them.\<close>

definition registry_ok :: "database \<Rightarrow> bool" where
  "registry_ok db = (user_tables_tbl db \<noteq> None \<and> list_all entry_ok (the (user_tables_tbl db)))"

text \<open>
  For the statement that no storage error is swallowed. A part of the script of faults is
  benign when it holds no error but contention. An action reports its faults when it
  consumes a prefix of the script and, whenever it returns or raises contention, that
  prefix is benign: no other error has been met and dropped.
\<close>

definition benign :: "exn option list \<Rightarrow> bool" where
  "benign fs = list_all (\<lambda>f. case f of None \<Rightarrow> True | Some e \<Rightarrow> is_locked e) fs"

definition quiet :: "exn + 'a \<Rightarrow> bool" where
  "quiet r = (case r of Inr v \<Rightarrow> True | Inl e \<Rightarrow> is_locked e)"

definition reports :: "'a action \<Rightarrow> bool" where
  "reports m =
     (\<forall>w. \<exists>k. faults (snd (m w)) = drop k (faults w) \<and>
                 (quiet (fst (m w)) \<longrightarrow> benign (take k (faults w))))"

section \<open>Example states\<close>

text \<open>
  A store with its core tables, the table of listener \<open>bob\<close>, and no registry entry
  for it.
\<close>

definition w_orphan :: world where
  "w_orphan = start_world
     \<lparr>users_tbl = Some [], tracks_tbl = Some [], user_tables_tbl = Some [],
      streams = [(''user_bob_listening_activity'', [])], indexes = []\<rparr> [] 1000"


text \<open>A store with its core tables and nothing in them.\<close>

definition w_ready :: world where
  "w_ready = start_world
     \<lparr>users_tbl = Some [], tracks_tbl = Some [], user_tables_tbl = Some [],
      streams = [], indexes = []\<rparr> [] 1000"

text \<open>Two sightings of listener \<open>bob\<close> on the same track.\<close>

definition event_a :: json where
  "event_a = JObj
     [(''user'', JObj [(''uri'', JStr ''spotify:user:bob''), (''name'', JStr ''Bob'')]),
      (''track'', JObj [(''uri'', JStr ''spotify:track:1''), (''name'', JStr ''Song A'')]),
      (''timestamp'', JInt 1700000000000)]"




text \<open>A sighting whose track is \<open>null\<close>.\<close>

definition event_null_track :: json where
  "event_null_track = JObj
     [(''user'', JObj [(''uri'', JStr ''spotify:user:amy''), (''name'', JStr ''Amy'')]),
      (''track'', JNull),
      (''timestamp'', JInt 1700000000000)]"



section \<open>Properties of the stream handle derivation\<close>

lemma split_chr_nonempty: "split_chr sep s \<noteq> []"
  by (induction s) (auto split: list.splits)

lemma set_last_split_chr: "set (last (split_chr sep s)) \<subseteq> set s - {sep}"
proof (induction s)
  case Nil
  then show ?case by simp
next
  case (Cons c cs)
  then show ?case
    using split_chr_nonempty [of sep cs]
    by (cases "split_chr sep cs") (auto split: if_splits)
qed

lemma sanitize_chars: "c \<in> set (sanitize s) \<Longrightarrow> char_isalnum c \<or> c = CHR ''_''"
  by (auto simp: sanitize_def)

lemma prefix_alnum: "list_all char_isalnum ''user''"
  by (simp add: char_isalnum_def)

lemma suffix_alnum: "list_all char_isalnum ''listeningactivity''"
  by (simp add: char_isalnum_def)

lemma table_name_valid:
  "str_isalnum (remove_underscores (''user_'' @ sanitize s @ ''_listening_activity''))"
proof -
  have a: "remove_underscores (''user_'' @ sanitize s @ ''_listening_activity'') =
        ''user'' @ remove_underscores (sanitize s) @ ''listeningactivity''"
    by (simp add: remove_underscores_def)
  have b: "list_all char_isalnum (remove_underscores (sanitize s))"
    by (auto simp: remove_underscores_def sanitize_def list_all_iff)
  show ?thesis
    unfolding a str_isalnum_def using b prefix_alnum suffix_alnum by simp
qed

lemma get_user_table_name_eq:
  "get_user_table_name u = Inr (''user_'' @ sanitize (last (split_chr (CHR '':'') u)) @ ''_listening_activity'')"
  using table_name_valid unfolding get_user_table_name_def Let_def by simp

lemma ascii_alnum_iff: "of_char c < (128::nat) \<Longrightarrow> char_isalnum c = ascii_alnum c"
  by (auto simp: char_isalnum_def ascii_alnum_def Let_def)

lemma fixed_chars: "c \<in> set ''user_'' \<union> set ''_listening_activity'' \<Longrightarrow> ascii_alnum c \<or> c = CHR ''_''"
  by (auto simp: ascii_alnum_def)

lemma ascii_imp: "ascii_alnum c \<Longrightarrow> char_isalnum c"
  by (auto simp: char_isalnum_def ascii_alnum_def Let_def)

text \<open>
  Claim C6, as amended. For every listener identifier the derivation returns a name and
  never raises: the name is \<open>user_\<close>, then the component after the last \<open>:\<close> with
  every character that is not alphanumeric (\<open>str.isalnum\<close>) replaced by \<open>_\<close>, then
  \<open>_listening_activity\<close>. Every character of the name is alphanumeric or \<open>_\<close>; when
  the identifier is ASCII, every character of the name is in \<open>[A-Za-z0-9_]\<close>. The check
  of the final name always passes, because the prefix and the suffix are part of what
  it checks.
\<close>

theorem get_user_table_name_derivation: "\<exists>name. get_user_table_name u = Inr name \<and>
     name = ''user_'' @ sanitize (last (split_chr (CHR '':'') u)) @ ''_listening_activity'' \<and>
     (\<forall>c \<in> set name. char_isalnum c \<or> c = CHR ''_'') \<and>
     ((\<forall>c \<in> set u. of_char c < (128::nat)) \<longrightarrow> (\<forall>c \<in> set name. ascii_alnum c \<or> c = CHR ''_''))"
proof -
  let ?l = "last (split_chr (CHR '':'') u)"
  let ?n = "''user_'' @ sanitize ?l @ ''_listening_activity''"
  have 1: "\<forall>c \<in> set ?n. char_isalnum c \<or> c = CHR ''_''"
  proof
    fix c assume "c \<in> set ?n"
    then consider "c \<in> set ''user_'' \<union> set ''_listening_activity''" | "c \<in> set (sanitize ?l)"
      unfolding set_append by blast
    then show "char_isalnum c \<or> c = CHR ''_''"
    proof cases
      case 1 then show ?thesis using fixed_chars ascii_imp by blast
    next
      case 2 then show ?thesis by (rule sanitize_chars)
    qed
  qed
  have 2: "(\<forall>c \<in> set u. of_char c < (128::nat)) \<longrightarrow> (\<forall>c \<in> set ?n. ascii_alnum c \<or> c = CHR ''_'')"
  proof (intro impI ballI)
    fix c assume a: "\<forall>c \<in> set u. of_char c < (128::nat)" and "c \<in> set ?n"
    then consider "c \<in> set ''user_'' \<union> set ''_listening_activity''" | "c \<in> set (sanitize ?l)"
      unfolding set_append by blast
    then show "ascii_alnum c \<or> c = CHR ''_''"
    proof cases
      case 1 then show ?thesis using fixed_chars by blast
    next
      case 2
      then obtain d where d: "d \<in> set ?l" "c = (if char_isalnum d then d else CHR ''_'')"
        by (auto simp: sanitize_def)
      then have "d \<in> set u" using set_last_split_chr [of "CHR '':''" u] by auto
      then have "of_char d < (128::nat)" using a by blast
      then show ?thesis using d ascii_alnum_iff by auto
    qed
  qed
  show ?thesis using get_user_table_name_eq 1 2 by blast
qed


theorem get_user_table_name_derivation_witness:
  "list_all (\<lambda>c. of_char c < (128::nat)) ''spotify:user:b-1'' \<and>
   (\<exists>name. get_user_table_name ''spotify:user:b-1'' = Inr name \<and>
      list_all (\<lambda>c. ascii_alnum c \<or> c = CHR ''_'') name)"
proof -
  have h: "\<forall>c \<in> set ''spotify:user:b-1''. of_char c < (128::nat)"
    by simp
  from get_user_table_name_derivation [of "''spotify:user:b-1''"] h show ?thesis
    unfolding list_all_iff by blast
qed

text \<open>
  Claim C6 as stated fails: an identifier whose local component is empty derives a name
  without any error.
\<close>

theorem get_user_table_name_empty_local_counterexample:
  "get_user_table_name ''spotify:user:'' = Inr ''user__listening_activity''"
  by (simp add: get_user_table_name_def sanitize_def str_isalnum_def
      remove_underscores_def char_isalnum_def)

text \<open>
  A Latin-1 letter (code point 233) is alphanumeric for Python and is kept, although it is
  outside \<open>[A-Za-z0-9_]\<close>.
\<close>

lemma get_user_table_name_latin1:
  "get_user_table_name [CHR ''a'', CHR '':'', CHR 0xE9] =
     Inr (''user_'' @ [CHR 0xE9] @ ''_listening_activity'') \<and> \<not> ascii_alnum (CHR 0xE9)"
  by (simp add: get_user_table_name_def sanitize_def str_isalnum_def
      remove_underscores_def char_isalnum_def ascii_alnum_def)

section \<open>Properties of the event filter\<close>







section \<open>Properties of the retrying writer\<close>

lemma contendedE:
  "contended func w \<Longrightarrow> \<exists>e w1. func w = (Inl e, w1) \<and> is_locked e"
  by (cases "func w") (auto simp: contended_def split: sum.splits)

lemma retry_from:
  "k \<le> N \<Longrightarrow> N < m \<Longrightarrow>
   (\<forall>i. k \<le> i \<and> i < N \<longrightarrow> contended func (attempt_world delay func i w0)) \<Longrightarrow>
   \<not> contended func (attempt_world delay func N w0) \<Longrightarrow>
   retry_attempts [k..<m] delay func le (attempt_world delay func k w0)
     = func (attempt_world delay func N w0)"
proof (induction "N - k" arbitrary: k le)
  case 0
  then have kN: "k = N" by simp
  have l: "[N..<m] = N # [Suc N..<m]"
    using 0(3) by (rule upt_conv_Cons)
  show ?case
    unfolding kN l using 0(5)
    by (cases "func (attempt_world delay func N w0)")
       (auto simp: contended_def split: sum.splits)
next
  case (Suc d)
  then have lt: "k < N" by simp
  then have km: "k < m" using Suc.prems(2) by simp
  have l: "[k..<m] = k # [Suc k..<m]"
    using km by (rule upt_conv_Cons)
  have c: "contended func (attempt_world delay func k w0)"
    using Suc.prems(3) lt by simp
  from contendedE [OF c] obtain e w1
    where f: "func (attempt_world delay func k w0) = (Inl e, w1)" "is_locked e"
    by blast
  have d: "d = N - Suc k" using Suc.hyps(2) by simp
  have le': "Suc k \<le> N" using lt by simp
  have all: "\<forall>i. Suc k \<le> i \<and> i < N \<longrightarrow> contended func (attempt_world delay func i w0)"
    using Suc.prems(3) by simp
  have "retry_attempts [k..<m] delay func le (attempt_world delay func k w0)
      = retry_attempts [Suc k..<m] delay func (Some e) (attempt_world delay func (Suc k) w0)"
    unfolding l using f by simp
  also have "\<dots> = func (attempt_world delay func N w0)"
    using Suc.hyps(1) [OF d le' Suc.prems(2) all Suc.prems(4)] .
  finally show ?case .
qed

lemma retry_exhaust:
  "k \<le> m \<Longrightarrow>
   (\<forall>i. k \<le> i \<and> i < m \<longrightarrow> contended func (attempt_world delay func i w0)) \<Longrightarrow>
   retry_attempts [k..<m] delay func (Some e0) (attempt_world delay func k w0)
     = (Inl (if k = m then e0 else projl (fst (func (attempt_world delay func (m - 1) w0)))),
        attempt_world delay func m w0)"
proof (induction "m - k" arbitrary: k e0)
  case 0
  then have "k = m" by simp
  then show ?case by simp
next
  case (Suc d)
  then have km: "k < m" by simp
  have l: "[k..<m] = k # [Suc k..<m]"
    using km by (rule upt_conv_Cons)
  have c: "contended func (attempt_world delay func k w0)"
    using Suc.prems(2) km by simp
  from contendedE [OF c] obtain e w1
    where f: "func (attempt_world delay func k w0) = (Inl e, w1)" "is_locked e"
    by blast
  have d: "d = m - Suc k" using Suc.hyps(2) by simp
  have le': "Suc k \<le> m" using km by simp
  have all: "\<forall>i. Suc k \<le> i \<and> i < m \<longrightarrow> contended func (attempt_world delay func i w0)"
    using Suc.prems(2) by simp
  have "retry_attempts [k..<m] delay func (Some e0) (attempt_world delay func k w0)
      = retry_attempts [Suc k..<m] delay func (Some e) (attempt_world delay func (Suc k) w0)"
    unfolding l using f by simp
  also have "\<dots> = (Inl (if Suc k = m then e else projl (fst (func (attempt_world delay func (m - 1) w0)))),
        attempt_world delay func m w0)"
    using Suc.hyps(1) [OF d le' all] .
  finally show ?case using f km by auto
qed

lemma backoff_effect:
  "slept (backoff delay k w) = slept w @ [delay * 2 ^ k] \<and> conn (backoff delay k w) = None \<and>
   committed (backoff delay k w) = committed w \<and> faults (backoff delay k w) = faults w \<and>
   next_conn (backoff delay k w) = next_conn w"
  by (simp add: backoff_def close_db_connection_def sleep_def log_msg_def split: option.splits)

lemma with_db_retry_success:
  assumes "N < max_attempts"
    and "\<forall>i<N. contended func (attempt_world delay func i w)"
    and "\<not> contended func (attempt_world delay func N w)"
  shows "with_db_retry max_attempts delay func w = func (attempt_world delay func N w)"
  unfolding with_db_retry_def
  using retry_from [of 0 N max_attempts func delay w None] assms by simp

lemma with_db_retry_exhausted:
  assumes "0 < max_attempts"
    and "\<forall>i<max_attempts. contended func (attempt_world delay func i w)"
  shows "\<exists>e. fst (func (attempt_world delay func (max_attempts - 1) w)) = Inl e \<and> is_locked e \<and>
             with_db_retry max_attempts delay func w
               = (Inl e, attempt_world delay func max_attempts w)"
proof -
  have c0: "contended func (attempt_world delay func 0 w)"
    using assms by blast
  from contendedE [OF c0] obtain e0 w1
    where f0: "func (attempt_world delay func 0 w) = (Inl e0, w1)" "is_locked e0"
    by blast
  have l: "[0..<max_attempts] = 0 # [Suc 0..<max_attempts]"
    using assms(1) by (rule upt_conv_Cons)
  have step: "with_db_retry max_attempts delay func w
      = retry_attempts [Suc 0..<max_attempts] delay func (Some e0) (attempt_world delay func (Suc 0) w)"
    unfolding with_db_retry_def l using f0 by simp
  have lastc: "contended func (attempt_world delay func (max_attempts - 1) w)"
    using assms by simp
  from contendedE [OF lastc] obtain e wl
    where e: "func (attempt_world delay func (max_attempts - 1) w) = (Inl e, wl)" "is_locked e"
    by blast
  have le': "Suc 0 \<le> max_attempts" using assms(1) by simp
  have all: "\<forall>i. Suc 0 \<le> i \<and> i < max_attempts \<longrightarrow> contended func (attempt_world delay func i w)"
    using assms(2) by simp
  have r: "with_db_retry max_attempts delay func w = (Inl e, attempt_world delay func max_attempts w)"
    unfolding step retry_exhaust [OF le' all, of e0]
    using e f0 by (cases "Suc 0 = max_attempts") auto
  show ?thesis
    using r e by simp
qed


text \<open>
  Claim C2. For every operation \<open>func\<close> wrapped by \<open>with_db_retry\<close>: when the first
  \<open>N\<close> attempts meet contention, \<open>N\<close> is below the maximum and attempt \<open>N + 1\<close>
  does not, the wrapper returns what that attempt returns, its value or its error, and
  runs nothing after it: a failure that is not contention propagates at once. When every
  attempt meets contention, the wrapper raises the error of the last attempt. After each
  contended attempt \<open>k\<close> the wrapper has slept \<open>delay * 2 ^ k\<close> seconds and released the
  cached connection, so that the next \<open>get_db_connection\<close> opens a new connection on
  the committed database. The decorator is used with 3 attempts and a delay of 1.
\<close>

theorem with_db_retry_policy:
  "(N < max_attempts \<and> (\<forall>i<N. contended func (attempt_world delay func i w)) \<and>
      \<not> contended func (attempt_world delay func N w)
      \<longrightarrow> with_db_retry max_attempts delay func w = func (attempt_world delay func N w)) \<and>
   (0 < max_attempts \<and> (\<forall>i<max_attempts. contended func (attempt_world delay func i w))
      \<longrightarrow> (\<exists>e. fst (func (attempt_world delay func (max_attempts - 1) w)) = Inl e \<and> is_locked e \<and>
             with_db_retry max_attempts delay func w
               = (Inl e, attempt_world delay func max_attempts w))) \<and>
   slept (attempt_world delay func (Suc k) w)
     = slept (snd (func (attempt_world delay func k w))) @ [delay * 2 ^ k] \<and>
   conn (attempt_world delay func (Suc k) w) = None \<and>
   fst (get_db_connection (attempt_world delay func (Suc k) w))
     = next_conn (snd (func (attempt_world delay func k w))) \<and>
   view (snd (get_db_connection (attempt_world delay func (Suc k) w)))
     = committed (snd (func (attempt_world delay func k w)))"
proof (intro conjI impI)
  assume "N < max_attempts \<and> (\<forall>i<N. contended func (attempt_world delay func i w)) \<and>
      \<not> contended func (attempt_world delay func N w)"
  then show "with_db_retry max_attempts delay func w = func (attempt_world delay func N w)"
    using with_db_retry_success by blast
next
  assume "0 < max_attempts \<and> (\<forall>i<max_attempts. contended func (attempt_world delay func i w))"
  then show "\<exists>e. fst (func (attempt_world delay func (max_attempts - 1) w)) = Inl e \<and> is_locked e \<and>
             with_db_retry max_attempts delay func w
               = (Inl e, attempt_world delay func max_attempts w)"
    using with_db_retry_exhausted by blast
next
  show "slept (attempt_world delay func (Suc k) w)
     = slept (snd (func (attempt_world delay func k w))) @ [delay * 2 ^ k]"
    by (simp add: backoff_effect)
next
  show "conn (attempt_world delay func (Suc k) w) = None"
    by (simp add: backoff_effect)
next
  show "fst (get_db_connection (attempt_world delay func (Suc k) w))
     = next_conn (snd (func (attempt_world delay func k w)))"
    by (simp add: get_db_connection_def backoff_effect)
next
  show "view (snd (get_db_connection (attempt_world delay func (Suc k) w)))
     = committed (snd (func (attempt_world delay func k w)))"
    by (simp add: get_db_connection_def backoff_effect)
qed

theorem with_db_retry_policy_witness:
  "fst (with_db_retry 3 1 probe
     (snd (get_db_connection
        (start_world no_tables
           [Some (OperationalError ''database is locked''),
            Some (OperationalError ''database is locked''), None,
            Some (OperationalError ''disk I/O error'')] 1000)))) = Inr () \<and>
   faults (snd (with_db_retry 3 1 probe
     (snd (get_db_connection
        (start_world no_tables
           [Some (OperationalError ''database is locked''),
            Some (OperationalError ''database is locked''), None,
            Some (OperationalError ''disk I/O error'')] 1000)))))
     = [Some (OperationalError ''disk I/O error'')] \<and>
   slept (snd (with_db_retry 3 1 probe
     (snd (get_db_connection
        (start_world no_tables
           [Some (OperationalError ''database is locked''),
            Some (OperationalError ''database is locked''), None,
            Some (OperationalError ''disk I/O error'')] 1000))))) = [1, 2]"
proof -
  let ?w = "snd (get_db_connection
        (start_world no_tables
           [Some (OperationalError ''database is locked''),
            Some (OperationalError ''database is locked''), None,
            Some (OperationalError ''disk I/O error'')] 1000))"
  have w0: "faults ?w = [Some (OperationalError ''database is locked''),
            Some (OperationalError ''database is locked''), None,
            Some (OperationalError ''disk I/O error'')]" "slept ?w = []"
    by (simp_all add: get_db_connection_def start_world_def)
  have f1: "faults (attempt_world 1 probe 1 ?w) = [Some (OperationalError ''database is locked''), None,
            Some (OperationalError ''disk I/O error'')]"
      and s1: "slept (attempt_world 1 probe 1 ?w) = [1]"
    using w0 by (simp_all add: probe_def backoff_effect)
  have f2: "faults (attempt_world 1 probe 2 ?w) = [None, Some (OperationalError ''disk I/O error'')]"
      and s2: "slept (attempt_world 1 probe 2 ?w) = [1, 2]"
    using f1 s1 unfolding numeral_2_eq_2 One_nat_def attempt_world.simps
    by (simp_all add: probe_def backoff_effect)
  have c0: "contended probe (attempt_world 1 probe 0 ?w)"
    using w0 by (simp add: contended_def probe_def)
  have c1: "contended probe (attempt_world 1 probe 1 ?w)"
    using f1 by (simp add: contended_def probe_def del: attempt_world.simps)
  have c2: "\<not> contended probe (attempt_world 1 probe 2 ?w)"
    using f2 by (simp add: contended_def probe_def del: attempt_world.simps)
  have all: "\<forall>i<2. contended probe (attempt_world 1 probe i ?w)"
    using c0 c1 by (auto simp: less_Suc_eq numeral_2_eq_2 simp del: attempt_world.simps)
  have "with_db_retry 3 1 probe ?w = probe (attempt_world 1 probe 2 ?w)"
    using with_db_retry_policy [of 2 3 probe 1 ?w 0] all c2 by simp
  then show ?thesis
    using f2 s2 by (simp add: probe_def del: attempt_world.simps)
qed


section \<open>Runs without faults\<close>

lemma not_contended_Inr: "fst (func w) = Inr v \<Longrightarrow> \<not> contended func w"
  by (simp add: contended_def)

lemma with_db_retry_first:
  "\<not> contended func w \<Longrightarrow> with_db_retry 3 1 func w = func w"
  using with_db_retry_success [of 0 3 func 1 w] by simp

lemma body_exists:
  assumes "faults w = []"
    and "get_user_table_name u = Inr name"
    and "name \<in> set (map fst (streams (current_db w)))"
  shows "create_user_table_body (JStr u) w = (Inr name, snd (get_db_connection w))"
proof (cases "conn w")
  case None
  then show ?thesis
    using assms
    by (simp add: create_user_table_body_def on_error_def get_db_connection_def and_then_def
        execute_with_def execute_def select_master_def table_exists_def return_val_def
        current_db_def)
next
  case (Some h)
  then show ?thesis
    using assms
    by (simp add: create_user_table_body_def on_error_def get_db_connection_def and_then_def
        execute_with_def execute_def select_master_def table_exists_def return_val_def
        current_db_def)
qed



lemma faults_nil_upd: "faults w = [] \<Longrightarrow> w\<lparr>faults := []\<rparr> = w"
  by simp

lemma execute_nofault:
  "conn w = Some h \<Longrightarrow> faults w = [] \<Longrightarrow>
   execute h kind stmt w =
     (case stmt (view w) of
        Inl e \<Rightarrow> (Inl e, w)
      | Inr (r, db) \<Rightarrow>
          (Inr r, w\<lparr>view := db, in_txn := (in_txn w \<or> kind = DML),
                    committed := (if in_txn w \<or> kind \<noteq> DDL then committed w else db)\<rparr>))"
  by (simp add: execute_def split: sum.splits prod.splits)

lemma commit_nofault:
  "conn w = Some h \<Longrightarrow> faults w = [] \<Longrightarrow>
   commit h w = (Inr (), if in_txn w then w\<lparr>committed := view w, in_txn := False\<rparr> else w)"
  by (simp add: commit_def)

lemma provision_nofault:
  assumes "conn w = Some h" and "faults w = []"
    and "\<not> table_exists (view w) (SText name)"
    and "user_tables_tbl (view w) \<noteq> None"
    and "\<not> in_txn w \<longrightarrow> committed w = view w"
  shows "provision_stream h (JStr u) name w =
     (Inr (), w\<lparr>view := provisioned u name (clock w) (view w),
               committed := provisioned u name (clock w) (view w),
               in_txn := False\<rparr>)"
proof -
  let ?d1 = "(view w)\<lparr>streams := streams (view w) @ [(name, [])]\<rparr>"
  let ?w1 = "w\<lparr>view := ?d1, committed := (if in_txn w then committed w else ?d1)\<rparr>"
  have s1: "execute h DDL (create_stream_table name) w = (Inr (), ?w1)"
    using assms(1,2,3) by (simp add: execute_nofault create_stream_table_def)
  let ?ix = "''idx_'' @ name @ ''_timestamp''"
  let ?d2 = "?d1\<lparr>indexes := (if ?ix \<in> set (indexes (view w)) then indexes (view w)
                                  else indexes (view w) @ [?ix])\<rparr>"
  let ?w2 = "w\<lparr>view := ?d2, committed := (if in_txn w then committed w else ?d2)\<rparr>"
  have c1: "conn ?w1 = Some h" "faults ?w1 = []" using assms(1,2) by simp_all
  have s2: "execute h DDL (create_index ?ix name) ?w1 = (Inr (), ?w2)"
    unfolding execute_nofault [OF c1] by (simp add: create_index_def)
  let ?d3 = "provisioned u name (clock w) (view w)"
  let ?w3 = "w\<lparr>view := ?d3, in_txn := True, committed := (if in_txn w then committed w else ?d2)\<rparr>"
  have c2: "conn ?w2 = Some h" "faults ?w2 = []" using assms(1,2) by simp_all
  have d3: "?d3 = ?d2\<lparr>user_tables_tbl := Some (upsert [SText u, SText name, SInt (int (clock w))]
                  (the (user_tables_tbl (view w))))\<rparr>"
    by (simp add: provisioned_def)
  have s3: "execute_with h DML [JStr u, JStr name]
                       (\<lambda>vs. insert_user_table (vs ! 0) (vs ! 1) (SInt (int (clock ?w2)))) ?w2 = (Inr (), ?w3)"
    unfolding execute_with_def execute_nofault [OF c2] using assms(1,4)
    by (auto simp: insert_user_table_def provisioned_def)
  have c3: "conn ?w3 = Some h" "faults ?w3 = []" using assms(1,2) by simp_all
  have s4: "commit h ?w3 = (Inr (), w\<lparr>view := ?d3, committed := ?d3, in_txn := False\<rparr>)"
    unfolding commit_nofault [OF c3] by simp
  show ?thesis
    unfolding provision_stream_def and_then_def s1 using s2 s3 s4 by simp
qed


lemma get_db_connection_facts:
  "conn (snd (get_db_connection w)) = Some (fst (get_db_connection w)) \<and>
   faults (snd (get_db_connection w)) = faults w \<and>
   view (snd (get_db_connection w)) = current_db w \<and>
   clock (snd (get_db_connection w)) = clock w \<and>
   log (snd (get_db_connection w)) = log w \<and>
   slept (snd (get_db_connection w)) = slept w \<and>
   committed (snd (get_db_connection w)) = committed w \<and>
   in_txn (snd (get_db_connection w)) = (conn w \<noteq> None \<and> in_txn w) \<and>
   current_db (snd (get_db_connection w)) = current_db w"
  by (cases "conn w") (simp_all add: get_db_connection_def current_db_def)

lemma body_missing:
  assumes "faults w = []"
    and "get_user_table_name u = Inr name"
    and "\<not> table_exists (current_db w) (SText name)"
    and "user_tables_tbl (current_db w) \<noteq> None"
    and "consistent w"
  shows "create_user_table_body (JStr u) w =
     (Inr name,
      (snd (get_db_connection w))
        \<lparr>log := log w @ [(INFO, ''Creating new table for user'')],
         view := provisioned u name (clock w) (current_db w),
         committed := provisioned u name (clock w) (current_db w),
         in_txn := False\<rparr>)"
proof -
  obtain h w1 where g: "get_db_connection w = (h, w1)" by (cases "get_db_connection w")
  from get_db_connection_facts [of w] g
  have f: "conn w1 = Some h" "faults w1 = []" "view w1 = current_db w" "clock w1 = clock w"
      "log w1 = log w" "committed w1 = committed w" "in_txn w1 = (conn w \<noteq> None \<and> in_txn w)"
    using assms(1) by simp_all
  have q: "execute_with h Query [JStr name] (\<lambda>vs. select_master (vs ! 0)) w1 = (Inr False, w1)"
    unfolding execute_with_def execute_nofault [OF f(1,2)] using f(1,3) assms(3)
    by (simp add: select_master_def)
  let ?w2 = "log_msg INFO ''Creating new table for user'' w1"
  have f2: "conn ?w2 = Some h" "faults ?w2 = []" "view ?w2 = current_db w" "clock ?w2 = clock w"
    using f by (simp_all add: log_msg_def)
  have cons: "\<not> in_txn ?w2 \<longrightarrow> committed ?w2 = view ?w2"
    using f assms(5) by (auto simp: log_msg_def consistent_def current_db_def)
  have p: "provision_stream h (JStr u) name ?w2 =
     (Inr (), ?w2\<lparr>view := provisioned u name (clock ?w2) (view ?w2),
               committed := provisioned u name (clock ?w2) (view ?w2),
               in_txn := False\<rparr>)"
    using provision_nofault [OF f2(1,2) _ _ cons, of name u] assms(3,4) f2(3) by simp
  show ?thesis
    unfolding create_user_table_body_def on_error_def
    using assms(2) g q p f2 f by (simp add: and_then_def return_val_def log_msg_def)
qed


lemma derived_name_not_core:
  assumes "get_user_table_name u = Inr name"
  shows "table_exists db (SText name) = (name \<in> set (map fst (streams db)))"
proof -
  from assms get_user_table_name_eq [of u]
  have n: "name = ''user_'' @ sanitize (last (split_chr (CHR '':'') u)) @ ''_listening_activity''"
    by simp
  have 1: "name \<noteq> ''users''" using n by simp
  have 2: "name \<noteq> ''tracks''" using n by simp
  have 3: "name \<noteq> ''sqlite_sequence''" using n by simp
  have "length name \<ge> 24" using n by simp
  then have 4: "name \<noteq> ''user_tables''" by auto
  show ?thesis using 1 2 3 4 by (simp add: table_exists_def)
qed


lemma upsert_count:
  "hd r \<noteq> SNull \<Longrightarrow> length (filter (\<lambda>x. hd x = hd r) (upsert r rows)) = 1"
  by (simp add: upsert_def)

lemma create_user_table_exists:
  assumes "faults w = []"
    and "get_user_table_name u = Inr name"
    and "name \<in> set (map fst (streams (current_db w)))"
  shows "create_user_table (JStr u) w = (Inr name, snd (get_db_connection w))"
  unfolding create_user_table_def
  using with_db_retry_first [of "create_user_table_body (JStr u)" w]
    body_exists [OF assms] by (simp add: contended_def)

lemma create_user_table_missing:
  assumes "faults w = []"
    and "get_user_table_name u = Inr name"
    and "name \<notin> set (map fst (streams (current_db w)))"
    and "user_tables_tbl (current_db w) \<noteq> None"
    and "consistent w"
  shows "create_user_table (JStr u) w =
     (Inr name,
      (snd (get_db_connection w))
        \<lparr>log := log w @ [(INFO, ''Creating new table for user'')],
         view := provisioned u name (clock w) (current_db w),
         committed := provisioned u name (clock w) (current_db w),
         in_txn := False\<rparr>)"
proof -
  have ne: "\<not> table_exists (current_db w) (SText name)"
    using derived_name_not_core [OF assms(2)] assms(3) by simp
  show ?thesis
    unfolding create_user_table_def
    using with_db_retry_first [of "create_user_table_body (JStr u)" w]
      body_missing [OF assms(1,2) ne assms(4,5)] by (simp add: contended_def)
qed


lemma execute_with_nofault:
  "conn w = Some h \<Longrightarrow> faults w = [] \<Longrightarrow> bind_params ps = Inr vs \<Longrightarrow>
   stmt vs (view w) = Inr (r, db) \<Longrightarrow>
   execute_with h kind ps stmt w =
     (Inr r, w\<lparr>view := db, in_txn := (in_txn w \<or> kind = DML),
               committed := (if in_txn w \<or> kind \<noteq> DDL then committed w else db)\<rparr>)"
  by (simp add: execute_with_def execute_nofault)

lemma write_rows_nofault:
  assumes "conn w = Some h" and "faults w = []"
    and "users_tbl (view w) \<noteq> None" and "tracks_tbl (view w) \<noteq> None"
    and "name \<in> set (map fst (streams (view w)))"
    and "bind_params (user_params user) = Inr uvals" and "uvals ! 1 \<noteq> SNull"
    and "bind_params (track_params track) = Inr tvals" and "tvals ! 1 \<noteq> SNull"
    and "bind_params (event_params ts track) = Inr evals"
    and "evals ! 0 \<noteq> SNull" and "evals ! 1 \<noteq> SNull"
  shows "write_rows h user track ts name w =
     (Inr (), w\<lparr>view := stored_rows name uvals tvals evals (view w),
               committed := stored_rows name uvals tvals evals (view w),
               in_txn := False\<rparr>)"
proof -
  let ?d1 = "(view w)\<lparr>users_tbl := Some (upsert uvals (the (users_tbl (view w))))\<rparr>"
  let ?w1 = "w\<lparr>view := ?d1, in_txn := True\<rparr>"
  have i1: "insert_user uvals (view w) = Inr ((), ?d1)"
    using assms(3,7) by (auto simp: insert_user_def)
  have s1: "execute_with h DML [user_uri user, user_name user, user_image_url user] insert_user w
      = (Inr (), ?w1)"
    using execute_with_nofault [where stmt = insert_user and w = w and h = h and vs = uvals
        and r = "()" and db = ?d1 and kind = DML
        and ps = "[user_uri user, user_name user, user_image_url user]"]
      assms(1,2,6) i1
    by (simp add: user_params_def)
  have c1: "conn ?w1 = Some h" "faults ?w1 = []" using assms(1,2) by simp_all
  let ?d2 = "?d1\<lparr>tracks_tbl := Some (upsert tvals (the (tracks_tbl (view w))))\<rparr>"
  let ?w2 = "w\<lparr>view := ?d2, in_txn := True\<rparr>"
  have i2: "insert_track tvals (view ?w1) = Inr ((), ?d2)"
    using assms(4,9) by (auto simp: insert_track_def)
  have s2: "execute_with h DML
                 [track_uri track, track_name track, track_image_url track, album_uri track,
                  album_name track, artist_uri track, artist_name track]
                 insert_track ?w1 = (Inr (), ?w2)"
    using execute_with_nofault [where stmt = insert_track and w = ?w1 and h = h and vs = tvals
        and r = "()" and db = ?d2 and kind = DML
        and ps = "[track_uri track, track_name track, track_image_url track, album_uri track,
                  album_name track, artist_uri track, artist_name track]"]
      c1 assms(8) i2
    by (simp add: track_params_def)
  have c2: "conn ?w2 = Some h" "faults ?w2 = []" using assms(1,2) by simp_all
  let ?d3 = "stored_rows name uvals tvals evals (view w)"
  let ?w3 = "w\<lparr>view := ?d3, in_txn := True\<rparr>"
  have i3: "insert_event name evals (view ?w2) = Inr ((), ?d3)"
    using assms(5,11,12) by (simp add: insert_event_def stored_rows_def)
  have s3: "execute_with h DML
                 [ts, track_uri track, context_uri track, context_name track,
                  context_index track]
                 (insert_event name) ?w2 = (Inr (), ?w3)"
    using execute_with_nofault [where stmt = "insert_event name" and w = ?w2 and h = h
        and vs = evals and r = "()" and db = ?d3 and kind = DML
        and ps = "[ts, track_uri track, context_uri track, context_name track,
                  context_index track]"]
      c2 assms(10) i3
    by (simp add: event_params_def)
  have c3: "conn ?w3 = Some h" "faults ?w3 = []" using assms(1,2) by simp_all
  have s4: "commit h ?w3 = (Inr (), w\<lparr>view := ?d3, committed := ?d3, in_txn := False\<rparr>)"
    unfolding commit_nofault [OF c3] by simp
  show ?thesis
    unfolding write_rows_def and_then_def s1 using s2 s3 s4 by simp
qed


lemma create_user_table_summary:
  assumes "faults w = []" and "get_user_table_name u = Inr name"
    and "user_tables_tbl (view w) \<noteq> None" and "consistent w" and "conn w = Some h"
  shows "\<exists>w2. create_user_table (JStr u) w = (Inr name, w2) \<and> conn w2 = Some h \<and>
           faults w2 = [] \<and> view w2 = ensure_stream u name (clock w) (view w) \<and>
           clock w2 = clock w \<and> slept w2 = slept w \<and> next_conn w2 = next_conn w"
proof -
  have cur: "current_db w = view w" using assms(5) by (simp add: current_db_def)
  have g: "snd (get_db_connection w) = w" using assms(5) by (simp add: get_db_connection_def)
  show ?thesis
  proof (cases "name \<in> set (map fst (streams (view w)))")
    case True
    then show ?thesis
      using create_user_table_exists [OF assms(1,2), unfolded cur g] assms(1,5)
      by (simp add: ensure_stream_def)
  next
    case False
    then show ?thesis
      using create_user_table_missing [OF assms(1,2) _ _ assms(4), unfolded cur g] assms(1,3,5)
      by (simp add: ensure_stream_def)
  qed
qed

lemma ensure_stream_facts:
  "users_tbl (ensure_stream u name t db) = users_tbl db \<and>
   tracks_tbl (ensure_stream u name t db) = tracks_tbl db \<and>
   name \<in> set (map fst (streams (ensure_stream u name t db)))"
  by (simp add: ensure_stream_def provisioned_def)

lemma store_activity_accepted:
  assumes "faults w = []" and "consistent w"
    and "parse_activity a = Inr (Accepted user track)"
    and "user_uri user = JStr u" and "get_user_table_name u = Inr name"
    and "dict_get a ''timestamp'' JNull = Inr ts"
    and "users_tbl (current_db w) \<noteq> None" and "tracks_tbl (current_db w) \<noteq> None"
    and "user_tables_tbl (current_db w) \<noteq> None"
    and "bind_params (user_params user) = Inr uvals" and "uvals ! 1 \<noteq> SNull"
    and "bind_params (track_params track) = Inr tvals" and "tvals ! 1 \<noteq> SNull"
    and "bind_params (event_params ts track) = Inr evals"
    and "evals ! 0 \<noteq> SNull" and "evals ! 1 \<noteq> SNull"
  shows "\<exists>w3. store_activity a w = (Inr (), w3) \<and> faults w3 = [] \<and> consistent w3 \<and>
           conn w3 \<noteq> None \<and>
           current_db w3 = stored_rows name uvals tvals evals
                             (ensure_stream u name (clock w) (current_db w)) \<and>
           committed w3 = current_db w3 \<and> clock w3 = clock w \<and> slept w3 = slept w"
proof -
  obtain h w1 where g: "get_db_connection w = (h, w1)" by (cases "get_db_connection w")
  from get_db_connection_facts [of w] g
  have f: "conn w1 = Some h" "faults w1 = []" "view w1 = current_db w" "clock w1 = clock w"
      "slept w1 = slept w"
    using assms(1) by simp_all
  have c1: "consistent w1"
    using g assms(2) by (cases "conn w") (auto simp: get_db_connection_def consistent_def)
  have r: "user_tables_tbl (view w1) \<noteq> None" using f(3) assms(9) by simp
  from create_user_table_summary [OF f(2) assms(5) r c1 f(1)]
  obtain w2 where w2: "create_user_table (JStr u) w1 = (Inr name, w2)" "conn w2 = Some h"
      "faults w2 = []" "view w2 = ensure_stream u name (clock w) (current_db w)"
      "clock w2 = clock w" "slept w2 = slept w"
    using f(3,4,5) by auto
  let ?S = "stored_rows name uvals tvals evals (view w2)"
  let ?w3 = "w2\<lparr>view := ?S, committed := ?S, in_txn := False\<rparr>"
  have wr: "write_rows h user track ts name w2 = (Inr (), ?w3)"
    using write_rows_nofault [OF w2(2,3) _ _ _ assms(10,11,12,13,14,15,16), of name]
      ensure_stream_facts [of u name "clock w" "current_db w"] w2(4) assms(7,8)
    by simp
  have sr: "store_rows h user track ts w1 = (Inr (), ?w3)"
    unfolding store_rows_def and_then_def on_error_def using w2(1) wr assms(4) by simp
  have body: "store_activity_body a w = (Inr (), ?w3)"
    unfolding store_activity_body_def on_error_def using assms(3,6) g sr by simp
  have sa: "store_activity a w = (Inr (), ?w3)"
    unfolding store_activity_def
    using with_db_retry_first [of "store_activity_body a" w] body
    by (simp add: contended_def)
  show ?thesis
    using sa w2 by (auto simp: consistent_def current_db_def)
qed


lemma event_valuesD:
  assumes "event_values a = Some (u, uvals, tvals, evals)"
  shows "\<exists>user track ts. parse_activity a = Inr (Accepted user track) \<and>
           user_uri user = JStr u \<and> dict_get a ''timestamp'' JNull = Inr ts \<and>
           bind_params (user_params user) = Inr uvals \<and> uvals ! 1 \<noteq> SNull \<and>
           bind_params (track_params track) = Inr tvals \<and> tvals ! 1 \<noteq> SNull \<and>
           bind_params (event_params ts track) = Inr evals \<and>
           evals ! 0 \<noteq> SNull \<and> evals ! 1 \<noteq> SNull"
  using assms unfolding event_values_def
  by (auto split: sum.splits parsed.splits json.splits if_splits)

lemma store_activity_valid:
  assumes "faults w = []" and "consistent w"
    and "event_values a = Some (u, uvals, tvals, evals)"
    and "get_user_table_name u = Inr name"
    and "users_tbl (current_db w) \<noteq> None" and "tracks_tbl (current_db w) \<noteq> None"
    and "user_tables_tbl (current_db w) \<noteq> None"
  shows "\<exists>w3. store_activity a w = (Inr (), w3) \<and> faults w3 = [] \<and> consistent w3 \<and>
           conn w3 \<noteq> None \<and>
           current_db w3 = stored_rows name uvals tvals evals
                             (ensure_stream u name (clock w) (current_db w)) \<and>
           committed w3 = current_db w3 \<and> clock w3 = clock w \<and> slept w3 = slept w"
proof -
  from event_valuesD [OF assms(3)] obtain user track ts where
    e: "parse_activity a = Inr (Accepted user track)"
      "user_uri user = JStr u" "dict_get a ''timestamp'' JNull = Inr ts"
      "bind_params (user_params user) = Inr uvals" "uvals ! 1 \<noteq> SNull"
      "bind_params (track_params track) = Inr tvals" "tvals ! 1 \<noteq> SNull"
      "bind_params (event_params ts track) = Inr evals"
      "evals ! 0 \<noteq> SNull" "evals ! 1 \<noteq> SNull"
    by blast
  show ?thesis
    using store_activity_accepted [OF assms(1,2) e(1,2) assms(4) e(3) assms(5,6,7) e(4-10)] .
qed



lemma rows_of_ensure_stream:
  "rows_of (ensure_stream u name t db) n = rows_of db n"
proof (cases "name \<in> set (map fst (streams db))")
  case True
  then show ?thesis by (simp add: ensure_stream_def)
next
  case False
  then have "map_of (streams db) name = None"
    by (simp add: map_of_eq_None_iff)
  then show ?thesis
    using False
    by (auto simp: ensure_stream_def provisioned_def rows_of_def stream_rows_def
        map_add_def split: option.splits)
qed


lemma rows_with_key_upsert:
  "hd r \<noteq> SNull \<Longrightarrow> rows_with_key (hd r) (Some (upsert r rows)) = [r]"
  by (simp add: rows_with_key_def upsert_def)




lemma fst_append_row: "fst (append_row name ev t) = fst t"
  by (simp add: append_row_def)

lemma stored_rows_tables:
  "users_tbl (stored_rows name uv tv ev db) = Some (upsert uv (the (users_tbl db))) \<and>
   tracks_tbl (stored_rows name uv tv ev db) = Some (upsert tv (the (tracks_tbl db))) \<and>
   user_tables_tbl (stored_rows name uv tv ev db) = user_tables_tbl db \<and>
   map fst (streams (stored_rows name uv tv ev db)) = map fst (streams db)"
  by (simp add: stored_rows_def fst_append_row comp_def)

lemma ensure_stream_registry:
  "user_tables_tbl db \<noteq> None \<Longrightarrow> user_tables_tbl (ensure_stream u name t db) \<noteq> None"
  by (simp add: ensure_stream_def provisioned_def)


lemma dict_get_error: "dict_get d k v = Inl e \<Longrightarrow> \<not> is_locked e"
  by (cases d) auto

lemma contains_colon_error: "contains_colon v = Inl e \<Longrightarrow> \<not> is_locked e"
  by (cases v) auto

lemma then_sum_unlocked:
  "then_sum m f = Inl e \<Longrightarrow> (\<And>e. m = Inl e \<Longrightarrow> \<not> is_locked e) \<Longrightarrow>
   (\<And>v e. f v = Inl e \<Longrightarrow> \<not> is_locked e) \<Longrightarrow> \<not> is_locked e"
  by (cases m) (auto simp: then_sum_def)

lemma read_user_error: "read_user d = Inl e \<Longrightarrow> \<not> is_locked e"
  unfolding read_user_def
  apply (erule then_sum_unlocked, erule dict_get_error)+
  apply simp
  done

lemma read_track_error: "read_track t al ar c = Inl e \<Longrightarrow> \<not> is_locked e"
  unfolding read_track_def
  apply (erule then_sum_unlocked, erule dict_get_error)+
  apply simp
  done

lemma validity_error:
  "(if \<not> truthy x then Inr True else then_sum (contains_colon x) (\<lambda>c. Inr (\<not> c))) = Inl e
   \<Longrightarrow> \<not> is_locked e"
  by (cases "truthy x") (auto simp: then_sum_def dest: contains_colon_error split: sum.splits)

lemma parse_activity_error: "parse_activity a = Inl e \<Longrightarrow> \<not> is_locked e"
  unfolding parse_activity_def
  apply (cases "is_dict a")
   prefer 2 apply simp
  apply (simp only: if_True not_True_eq_False if_False simp_thms)
  apply (erule then_sum_unlocked, erule dict_get_error)+
  apply (split if_splits)
   apply simp
  apply (erule then_sum_unlocked, erule read_user_error)
  apply (erule then_sum_unlocked, erule validity_error)
  apply (split if_splits)
   apply simp
  apply (erule then_sum_unlocked, erule read_track_error)
  apply simp
  done


lemma store_activity_rejected:
  assumes "parse_activity a = Inr (Rejected msg)"
  shows "store_activity a w = (Inr (), log_msg ERROR msg w)"
proof -
  have body: "store_activity_body a w = (Inr (), log_msg ERROR msg w)"
    unfolding store_activity_body_def on_error_def using assms by simp
  show ?thesis
    unfolding store_activity_def
    using with_db_retry_first [of "store_activity_body a" w] body
    by (simp add: contended_def)
qed

lemma store_activity_parse_error:
  assumes "parse_activity a = Inl e"
  shows "store_activity a w =
     (Inl e, log_msg ERROR ''Activity data'' (log_msg ERROR ''Error storing activity'' w))"
proof -
  have body: "store_activity_body a w =
     (Inl e, log_msg ERROR ''Activity data'' (log_msg ERROR ''Error storing activity'' w))"
    unfolding store_activity_body_def on_error_def using assms by simp
  show ?thesis
    unfolding store_activity_def
    using with_db_retry_first [of "store_activity_body a" w] body
      parse_activity_error [OF assms]
    by (simp add: contended_def)
qed




lemma create_user_table_step:
  assumes "faults w = []" and "get_user_table_name u = Inr name"
    and "user_tables_tbl (view w) \<noteq> None" and "consistent w" and "conn w = Some h"
  shows "\<exists>w2. create_user_table (JStr u) w = (Inr name, w2) \<and> conn w2 = Some h \<and>
           faults w2 = [] \<and> view w2 = ensure_stream u name (clock w) (view w) \<and>
           clock w2 = clock w \<and> consistent w2"
proof -
  have cur: "current_db w = view w" using assms(5) by (simp add: current_db_def)
  have g: "snd (get_db_connection w) = w" using assms(5) by (simp add: get_db_connection_def)
  show ?thesis
  proof (cases "name \<in> set (map fst (streams (view w)))")
    case True
    then show ?thesis
      using create_user_table_exists [OF assms(1,2), unfolded cur g] assms(1,4,5)
      by (simp add: ensure_stream_def)
  next
    case False
    then show ?thesis
      using create_user_table_missing [OF assms(1,2) _ _ assms(4), unfolded cur g] assms(1,3,5)
      by (simp add: ensure_stream_def consistent_def)
  qed
qed

lemma entry_okD:
  "entry_ok e \<Longrightarrow> \<exists>u n. e ! 0 = SText u \<and> e ! 1 = SText n \<and> get_user_table_name u = Inr n \<and>
     listener_of e = u \<and> handle_of e = n"
  by (auto simp: entry_ok_def listener_of_def handle_of_def split: sqlval.splits)

lemma repair_entries_nofault:
  assumes "conn w = Some h" and "faults w = []" and "consistent w"
    and "user_tables_tbl (view w) \<noteq> None" and "\<forall>e \<in> set entries. entry_ok e"
  shows "\<exists>w'. repair_entries h entries w = (Inr (), w') \<and> conn w' = Some h \<and> faults w' = [] \<and>
           consistent w' \<and> view w' = repaired (clock w) entries (view w) \<and> clock w' = clock w"
  using assms
proof (induction entries arbitrary: w)
  case Nil
  then show ?case by (simp add: return_val_def)
next
  case (Cons e entries)
  from Cons.prems(5) have ok: "entry_ok e" and rest: "\<forall>e \<in> set entries. entry_ok e"
    by simp_all
  from entry_okD [OF ok] obtain u n where
    e: "e ! 0 = SText u" "e ! 1 = SText n" "get_user_table_name u = Inr n"
      "listener_of e = u" "handle_of e = n"
    by blast
  have q: "execute h Query (select_master (e ! 1)) w
             = (Inr (n \<in> set (map fst (streams (view w)))), w)"
    unfolding execute_nofault [OF Cons.prems(1,2)]
    using derived_name_not_core [OF e(3)] e(2) by (simp add: select_master_def)
  have "\<exists>w1. (if \<not> (n \<in> set (map fst (streams (view w))))
               then (\<lambda>w. case create_user_table (py_value (e ! 0))
                               (log_msg WARNING ''Missing table for user'' w) of
                           (Inl e, w1) \<Rightarrow> (Inl e, w1)
                         | (Inr table_name, w1) \<Rightarrow> (Inr (), w1))
               else return_val ()) w = (Inr (), w1) \<and> conn w1 = Some h \<and> faults w1 = [] \<and>
           consistent w1 \<and> view w1 = ensure_stream u n (clock w) (view w) \<and> clock w1 = clock w"
  proof (cases "n \<in> set (map fst (streams (view w)))")
    case True
    then show ?thesis
      using Cons.prems(1,2,3) by (simp add: return_val_def ensure_stream_def)
  next
    case False
    let ?wl = "log_msg WARNING ''Missing table for user'' w"
    have l: "faults ?wl = []" "user_tables_tbl (view ?wl) \<noteq> None" "consistent ?wl"
        "conn ?wl = Some h" "view ?wl = view w" "clock ?wl = clock w"
      using Cons.prems(1,2,3,4) by (simp_all add: log_msg_def consistent_def)
    from create_user_table_step [OF l(1) e(3) l(2,3,4)]
    show ?thesis using False e(1) l(5,6) by auto
  qed
  then obtain w1 where w1: "(if \<not> (n \<in> set (map fst (streams (view w))))
               then (\<lambda>w. case create_user_table (py_value (e ! 0))
                               (log_msg WARNING ''Missing table for user'' w) of
                           (Inl e, w1) \<Rightarrow> (Inl e, w1)
                         | (Inr table_name, w1) \<Rightarrow> (Inr (), w1))
               else return_val ()) w = (Inr (), w1)" "conn w1 = Some h" "faults w1 = []"
           "consistent w1" "view w1 = ensure_stream u n (clock w) (view w)" "clock w1 = clock w"
    by blast
  have r: "user_tables_tbl (view w1) \<noteq> None"
    unfolding w1(5) using ensure_stream_registry [OF Cons.prems(4)] .
  from Cons.IH [OF w1(2,3,4) r rest] obtain w' where
    w': "repair_entries h entries w1 = (Inr (), w')" "conn w' = Some h" "faults w' = []"
      "consistent w'" "view w' = repaired (clock w1) entries (view w1)" "clock w' = clock w1"
    by blast
  have "repair_entries h (e # entries) w = (Inr (), w')"
    using q w1(1) w'(1) by (simp add: and_then_def)
  then show ?case
    using w' w1 e by simp
qed


lemma baseline_schema_complete:
  "length (filter (\<lambda>t. t \<noteq> None) [users_tbl db, tracks_tbl db, user_tables_tbl db]) = 3
   \<Longrightarrow> baseline_schema db = db"
  by (auto simp: baseline_schema_def create_if_absent_def split: if_splits option.splits)

lemma baseline_schema_tables:
  "users_tbl (baseline_schema db) = create_if_absent (users_tbl db) \<and>
   tracks_tbl (baseline_schema db) = create_if_absent (tracks_tbl db) \<and>
   user_tables_tbl (baseline_schema db) = create_if_absent (user_tables_tbl db) \<and>
   streams (baseline_schema db) = streams db \<and>
   create_if_absent t \<noteq> None"
  by (simp add: baseline_schema_def create_if_absent_def split: option.splits)

lemma init_database_nofault:
  assumes "conn w = Some h" and "faults w = []"
  shows "init_database w =
     (Inr (), w\<lparr>view := baseline_schema (view w), committed := baseline_schema (view w),
               in_txn := False\<rparr>)"
proof -
  let ?w2 = "w\<lparr>view := baseline_schema (view w), committed := baseline_schema (view w),
               in_txn := False\<rparr>"
  have g: "get_db_connection w = (h, w)" using assms(1) by (simp add: get_db_connection_def)
  have x: "executescript h baseline_schema w = (Inr (), ?w2)"
    using assms by (simp add: executescript_def)
  have c: "commit h ?w2 = (Inr (), ?w2)"
    using assms by (simp add: commit_def)
  show ?thesis
    unfolding init_database_def using g x c by (simp add: with_conn_def and_then_def)
qed

lemma entry_ok_projection: "entry_ok r \<Longrightarrow> entry_ok [r ! 0, r ! 1]"
proof -
  have "[r ! 0, r ! 1] ! 1 = r ! 1" by simp
  then show "entry_ok r \<Longrightarrow> entry_ok [r ! 0, r ! 1]"
    by (simp add: entry_ok_def split: sqlval.splits)
qed

lemma verify_nofault:
  assumes "faults w = []" and "consistent w"
    and "\<forall>r \<in> set (the (user_tables_tbl (baseline_schema (current_db w)))). entry_ok r"
  shows "\<exists>w'. verify_database_structure w = (Inr (), w') \<and> faults w' = [] \<and>
           conn w' \<noteq> None \<and> committed w' = view w' \<and> clock w' = clock w \<and>
           view w' = repaired (clock w) (registry_entries (baseline_schema (current_db w)))
                       (baseline_schema (current_db w))"
proof -
  let ?B = "baseline_schema (current_db w)"
  obtain h w1 where g: "get_db_connection w = (h, w1)" by (cases "get_db_connection w")
  from get_db_connection_facts [of w] g
  have f: "conn w1 = Some h" "faults w1 = []" "view w1 = current_db w" "clock w1 = clock w"
    using assms(1) by simp_all
  have c1: "consistent w1"
    using g assms(2) by (cases "conn w") (auto simp: get_db_connection_def consistent_def)
  let ?n = "length (filter (\<lambda>t. t \<noteq> None)
              [users_tbl (view w1), tracks_tbl (view w1), user_tables_tbl (view w1)])"
  have q: "execute h Query select_core_tables w1 = (Inr ?n, w1)"
    unfolding execute_nofault [OF f(1,2)] by (simp add: select_core_tables_def)
  have n3: "?n \<le> 3" by (rule order_trans [OF length_filter_le]) simp
  have "\<exists>wA. (if ?n < 3
               then (\<lambda>w. init_database
                           (log_msg WARNING ''Missing required tables, reinitializing database'' w))
               else return_val ()) w1 = (Inr (), wA) \<and> conn wA = Some h \<and> faults wA = [] \<and>
            consistent wA \<and> view wA = ?B \<and> clock wA = clock w"
  proof (cases "?n < 3")
    case True
    let ?wl = "log_msg WARNING ''Missing required tables, reinitializing database'' w1"
    have l: "conn ?wl = Some h" "faults ?wl = []" "view ?wl = view w1" "clock ?wl = clock w1"
      using f by (simp_all add: log_msg_def)
    show ?thesis
      using True init_database_nofault [OF l(1,2)] l f
      by (simp add: consistent_def)
  next
    case False
    then have "?n = 3" using n3 by simp
    then have "baseline_schema (view w1) = view w1"
      by (rule baseline_schema_complete)
    then show ?thesis
      using False f c1 by (simp add: return_val_def)
  qed
  then obtain wA where wA: "(if ?n < 3
               then (\<lambda>w. init_database
                           (log_msg WARNING ''Missing required tables, reinitializing database'' w))
               else return_val ()) w1 = (Inr (), wA)" "conn wA = Some h" "faults wA = []"
            "consistent wA" "view wA = ?B" "clock wA = clock w"
    by blast
  have reg: "user_tables_tbl ?B \<noteq> None"
    using baseline_schema_tables [of "current_db w"] by simp
  have s: "execute h Query select_user_tables wA = (Inr (registry_entries ?B), wA)"
    unfolding execute_nofault [OF wA(2,3)] using reg wA(5)
    by (auto simp: select_user_tables_def registry_entries_def)
  have oks: "\<forall>e \<in> set (registry_entries ?B). entry_ok e"
    using assms(3)
    by (auto simp: registry_entries_def entry_ok_projection [unfolded One_nat_def])
  have regA: "user_tables_tbl (view wA) \<noteq> None" using reg wA(5) by simp
  from repair_entries_nofault [OF wA(2,3,4) regA oks] obtain w' where
    w': "repair_entries h (registry_entries ?B) wA = (Inr (), w')" "conn w' = Some h"
      "faults w' = []" "consistent w'"
      "view w' = repaired (clock wA) (registry_entries ?B) (view wA)" "clock w' = clock wA"
    by blast
  have body: "verify_body h w1 = (Inr (), w')"
    unfolding verify_body_def using q wA(1) s w'(1) by (simp add: and_then_def)
  let ?wf = "if in_txn w' then w'\<lparr>committed := view w', in_txn := False\<rparr> else w'"
  have cm: "commit h w' = (Inr (), ?wf)"
    using commit_nofault [OF w'(2,3)] .
  have v: "verify_database_structure w = (Inr (), ?wf)"
    unfolding verify_database_structure_def using g body cm
    by (simp add: with_conn_def on_error_def)
  have fin: "committed ?wf = view ?wf"
    using w'(2,4) by (auto simp: consistent_def)
  show ?thesis
    using v fin w' wA by auto
qed


lemma entry_ok_hd: "entry_ok r \<Longrightarrow> hd r = r ! 0"
  by (cases r) (auto simp: entry_ok_def)

lemma ensure_stream_step:
  assumes "registry_ok db" and "entry_ok e" and "(e ! 0, e ! 1) \<in> registry_pairs db"
  shows "registry_ok (ensure_stream (listener_of e) (handle_of e) now db) \<and>
         registry_pairs (ensure_stream (listener_of e) (handle_of e) now db) = registry_pairs db \<and>
         users_tbl (ensure_stream (listener_of e) (handle_of e) now db) = users_tbl db \<and>
         tracks_tbl (ensure_stream (listener_of e) (handle_of e) now db) = tracks_tbl db \<and>
         handle_of e \<in> set (map fst (streams (ensure_stream (listener_of e) (handle_of e) now db))) \<and>
         set (map fst (streams db))
           \<subseteq> set (map fst (streams (ensure_stream (listener_of e) (handle_of e) now db)))"
proof (cases "handle_of e \<in> set (map fst (streams db))")
  case True
  then show ?thesis using assms(1) by (simp add: ensure_stream_def)
next
  case False
  from entry_okD [OF assms(2)] obtain u n where
    e: "e ! 0 = SText u" "e ! 1 = SText n" "get_user_table_name u = Inr n"
      "listener_of e = u" "handle_of e = n"
    by blast
  obtain regs where regs: "user_tables_tbl db = Some regs" "list_all entry_ok regs"
    using assms(1) by (auto simp: registry_ok_def)
  let ?new = "[SText u, SText n, SInt (int now)]"
  have newok: "entry_ok ?new"
    using e(3) by (simp add: entry_ok_def)
  have same: "r \<in> set regs \<Longrightarrow> hd r = SText u \<Longrightarrow> (r ! 0, r ! 1) = (SText u, SText n)" for r
  proof -
    assume r: "r \<in> set regs" "hd r = SText u"
    then have ok: "entry_ok r" using regs(2) by (simp add: list_all_iff)
    from entry_okD [OF ok] obtain u' n' where
      r': "r ! 0 = SText u'" "r ! 1 = SText n'" "get_user_table_name u' = Inr n'"
      by blast
    have "u' = u" using entry_ok_hd [OF ok] r(2) r'(1) by simp
    then show ?thesis using r' e(3) by simp
  qed
  have keep: "r \<in> set regs \<Longrightarrow> hd r \<noteq> SText u \<or> (r ! 0, r ! 1) = (SText u, SText n)" for r
    using same by blast
  have inreg: "(SText u, SText n) \<in> (\<lambda>r. (r ! 0, r ! 1)) ` set regs"
    using assms(3) e(1,2) regs(1) by (simp add: registry_pairs_def)
  have up: "upsert ?new regs = filter (\<lambda>x. hd x \<noteq> SText u) regs @ [?new]"
    by (simp add: upsert_def)
  have pairs: "(\<lambda>r. (r ! 0, r ! 1)) ` set (upsert ?new regs) = (\<lambda>r. (r ! 0, r ! 1)) ` set regs"
  proof
    show "(\<lambda>r. (r ! 0, r ! 1)) ` set (upsert ?new regs) \<subseteq> (\<lambda>r. (r ! 0, r ! 1)) ` set regs"
      unfolding up using inreg by auto
    show "(\<lambda>r. (r ! 0, r ! 1)) ` set regs \<subseteq> (\<lambda>r. (r ! 0, r ! 1)) ` set (upsert ?new regs)"
    proof
      fix p assume "p \<in> (\<lambda>r. (r ! 0, r ! 1)) ` set regs"
      then obtain r where r: "r \<in> set regs" "p = (r ! 0, r ! 1)" by blast
      show "p \<in> (\<lambda>r. (r ! 0, r ! 1)) ` set (upsert ?new regs)"
      proof (cases "hd r = SText u")
        case True
        then have "p = (SText u, SText n)" using same [OF r(1)] r(2) by simp
        then show ?thesis unfolding up by (simp add: image_iff)
      next
        case False
        then have "r \<in> set (upsert ?new regs)" unfolding up using r(1) by simp
        then show ?thesis using r(2) by blast
      qed
    qed
  qed
  have oks: "list_all entry_ok (upsert ?new regs)"
    unfolding up using regs(2) newok by (simp add: list_all_iff)
  show ?thesis
    using False e(4,5) regs(1) pairs oks
    by (auto simp: ensure_stream_def provisioned_def registry_ok_def registry_pairs_def)
qed

lemma repaired_properties:
  assumes "registry_ok db" and "list_all entry_ok entries"
    and "\<forall>e \<in> set entries. (e ! 0, e ! 1) \<in> registry_pairs db"
  shows "registry_ok (repaired now entries db) \<and>
         registry_pairs (repaired now entries db) = registry_pairs db \<and>
         users_tbl (repaired now entries db) = users_tbl db \<and>
         tracks_tbl (repaired now entries db) = tracks_tbl db \<and>
         (\<forall>e \<in> set entries. handle_of e \<in> set (map fst (streams (repaired now entries db)))) \<and>
         set (map fst (streams db)) \<subseteq> set (map fst (streams (repaired now entries db))) \<and>
         (\<forall>n. rows_of (repaired now entries db) n = rows_of db n)"
  using assms
proof (induction entries arbitrary: db)
  case Nil
  then show ?case by simp
next
  case (Cons e entries)
  let ?d = "ensure_stream (listener_of e) (handle_of e) now db"
  from Cons.prems have ok: "entry_ok e" and oks: "list_all entry_ok entries"
    and p: "(e ! 0, e ! 1) \<in> registry_pairs db"
    and ps: "\<forall>e \<in> set entries. (e ! 0, e ! 1) \<in> registry_pairs db"
    by simp_all
  from ensure_stream_step [OF Cons.prems(1) ok p, of now] have
    s: "registry_ok ?d" "registry_pairs ?d = registry_pairs db" "users_tbl ?d = users_tbl db"
      "tracks_tbl ?d = tracks_tbl db" "handle_of e \<in> set (map fst (streams ?d))"
      "set (map fst (streams db)) \<subseteq> set (map fst (streams ?d))"
    by simp_all
  have ps': "\<forall>e \<in> set entries. (e ! 0, e ! 1) \<in> registry_pairs ?d"
    using ps s(2) by simp
  from Cons.IH [OF s(1) oks ps'] have
    ih: "registry_ok (repaired now entries ?d)"
      "registry_pairs (repaired now entries ?d) = registry_pairs ?d"
      "users_tbl (repaired now entries ?d) = users_tbl ?d"
      "tracks_tbl (repaired now entries ?d) = tracks_tbl ?d"
      "\<forall>e \<in> set entries. handle_of e \<in> set (map fst (streams (repaired now entries ?d)))"
      "set (map fst (streams ?d)) \<subseteq> set (map fst (streams (repaired now entries ?d)))"
      "\<forall>n. rows_of (repaired now entries ?d) n = rows_of ?d n"
    by simp_all
  have rows: "\<forall>n. rows_of (repaired now entries ?d) n = rows_of db n"
    using ih(7) rows_of_ensure_stream by simp
  have h1: "handle_of e \<in> set (map fst (streams (repaired now entries ?d)))"
    using s(5) ih(6) by blast
  have sub: "set (map fst (streams db)) \<subseteq> set (map fst (streams (repaired now entries ?d)))"
    using s(6) ih(6) by blast
  have all: "\<forall>x \<in> set (e # entries). handle_of x \<in> set (map fst (streams (repaired now entries ?d)))"
    using h1 ih(5) by simp
  show ?case
    unfolding repaired.simps
    using ih(1) ih(2) s(2) ih(3) s(3) ih(4) s(4) all sub rows by simp
qed


section \<open>Properties of stream provisioning\<close>

lemma bob: "get_user_table_name ''spotify:user:bob'' = Inr ''user_bob_listening_activity''"
  by (simp add: get_user_table_name_def sanitize_def str_isalnum_def
      remove_underscores_def char_isalnum_def)

text \<open>
  Claim C10. When the table of a listener exists, \<open>create_user_table\<close> returns the
  derived handle and changes nothing in the store; it opens a connection at most. The
  registry is written only in the branch that creates the table, so a table without a
  registry entry stays without one.
\<close>

theorem create_user_table_existing_structure:
  assumes "faults w = []"
    and "get_user_table_name u = Inr name"
    and "name \<in> set (map fst (streams (current_db w)))"
  shows "create_user_table (JStr u) w = (Inr name, snd (get_db_connection w)) \<and>
         current_db (snd (create_user_table (JStr u) w)) = current_db w \<and>
         committed (snd (create_user_table (JStr u) w)) = committed w \<and>
         user_tables_tbl (current_db (snd (create_user_table (JStr u) w)))
           = user_tables_tbl (current_db w)"
  using create_user_table_exists [OF assms] get_db_connection_facts [of w] by simp

theorem create_user_table_existing_structure_witness:
  "fst (create_user_table (JStr ''spotify:user:bob'') w_orphan) = Inr ''user_bob_listening_activity'' \<and>
   user_tables_tbl (current_db (snd (create_user_table (JStr ''spotify:user:bob'') w_orphan))) = Some []"
  using create_user_table_existing_structure [of w_orphan "''spotify:user:bob''" "''user_bob_listening_activity''"] bob
  by (simp add: w_orphan_def start_world_def current_db_def get_db_connection_def)







section \<open>Properties of ingestion\<close>

lemma event_a_values:
  "event_values event_a =
     Some (''spotify:user:bob'', [SText ''spotify:user:bob'', SText ''Bob'', SNull],
           [SText ''spotify:track:1'', SText ''Song A'', SNull, SNull, SNull, SNull, SNull],
           [SInt 1700000000000, SText ''spotify:track:1'', SNull, SNull, SNull])"
  by (simp add: event_values_def event_a_def parse_activity_def is_dict_def then_sum_def
      read_user_def read_track_def py_or_def user_params_def track_params_def event_params_def)


lemma w_ready_facts:
  "faults w_ready = []" "consistent w_ready"
  "users_tbl (current_db w_ready) \<noteq> None" "tracks_tbl (current_db w_ready) \<noteq> None"
  "user_tables_tbl (current_db w_ready) \<noteq> None"
  "rows_of (current_db w_ready) n = []"
  by (simp_all add: w_ready_def start_world_def consistent_def current_db_def rows_of_def
      stream_rows_def)









section \<open>Properties of the poll loop\<close>

lemma ingest_all_append_fail:
  "ingest_all pre w = (Inr (), w1) \<Longrightarrow> ingest_one a w1 = (Inl e, w2) \<Longrightarrow>
   ingest_all (pre @ a # rest) w = (Inl e, w2)"
proof (induction pre arbitrary: w)
  case Nil
  then show ?case by (simp add: return_val_def and_then_def)
next
  case (Cons p pre)
  then show ?case
    by (cases "ingest_one p w") (auto simp: and_then_def split: sum.splits)
qed

lemma run_ticks_length:
  "length (slept (tick i f w)) > 0 \<and> last (slept (tick i f w)) = i"
  by (cases "tick_body f w") (auto simp: tick_def sleep_def split: sum.splits)

lemma event_null_track_raises:
  "parse_activity event_null_track = Inl (AttributeError ''object has no attribute get'')"
  by (simp add: parse_activity_def event_null_track_def is_dict_def then_sum_def)

lemma ingest_null_track:
  "ingest_one event_null_track w =
     (Inl (AttributeError ''object has no attribute get''),
      log_msg ERROR ''Activity data'' (log_msg ERROR ''Error storing activity'' w))"
  using store_activity_parse_error [OF event_null_track_raises, of w]
  by (simp add: ingest_one_def is_dict_def event_null_track_def)

text \<open>
  Claim C7, as amended. In every tick of \<open>run_collection_loop\<close> the candidates are
  ingested in order. A candidate that is not a dict, or that the validation rejects, is
  logged and the next candidate is ingested. When \<open>store_activity\<close> raises on a
  candidate, the exception is caught by the handler of the tick and logged, the
  candidates after it are not ingested in that tick, and the tick ends with its sleep. A
  failed fetch ends the tick the same way. The loop then runs the next tick: no failure
  of a fetch or of an event ends the loop.
\<close>

theorem run_collection_loop_isolation:
  "(ingest_all pre w = (Inr (), w1) \<and> ingest_one a w1 = (Inl e, w2) \<longrightarrow>
      ingest_all (pre @ a # rest) w = (Inl e, w2) \<and>
      tick interval (Inr (pre @ a # rest)) w
        = sleep interval (log_msg ERROR ''Error in collection loop'' w2)) \<and>
   (ingest_one a w = (Inr (), w1) \<longrightarrow> ingest_all (a # rest) w = ingest_all rest w1) \<and>
   (\<not> is_dict a \<longrightarrow> ingest_one a w = (Inr (), log_msg ERROR ''Invalid activity format'' w)) \<and>
   (is_dict a \<and> parse_activity a = Inr (Rejected msg) \<longrightarrow>
      ingest_one a w = (Inr (), log_msg ERROR msg w)) \<and>
   tick interval (Inl e) w = sleep interval (log_msg ERROR ''Error in collection loop'' w) \<and>
   run_ticks interval (fetched # later) w = run_ticks interval later (tick interval fetched w) \<and>
   run_ticks interval (fetches @ later_fetches) w = run_ticks interval later_fetches (run_ticks interval fetches w) \<and>
   slept (tick interval fetched w) \<noteq> [] \<and> last (slept (tick interval fetched w)) = interval"
proof (intro conjI impI)
  assume a: "ingest_all pre w = (Inr (), w1) \<and> ingest_one a w1 = (Inl e, w2)"
  then show f: "ingest_all (pre @ a # rest) w = (Inl e, w2)"
    using ingest_all_append_fail by blast
  show "tick interval (Inr (pre @ a # rest)) w
        = sleep interval (log_msg ERROR ''Error in collection loop'' w2)"
    using f by (simp add: tick_def tick_body_def and_then_def)
next
  assume "ingest_one a w = (Inr (), w1)"
  then show "ingest_all (a # rest) w = ingest_all rest w1"
    by (simp add: and_then_def)
next
  assume "\<not> is_dict a"
  then show "ingest_one a w = (Inr (), log_msg ERROR ''Invalid activity format'' w)"
    by (simp add: ingest_one_def)
next
  assume r: "is_dict a \<and> parse_activity a = Inr (Rejected msg)"
  then show "ingest_one a w = (Inr (), log_msg ERROR msg w)"
    using store_activity_rejected [of a msg w] by (simp add: ingest_one_def)
next
  show "tick interval (Inl e) w = sleep interval (log_msg ERROR ''Error in collection loop'' w)"
    by (simp add: tick_def tick_body_def raise_exn_def)
next
  show "run_ticks interval (fetched # later) w = run_ticks interval later (tick interval fetched w)"
    by simp
next
  show "run_ticks interval (fetches @ later_fetches) w = run_ticks interval later_fetches (run_ticks interval fetches w)"
    by (induction fetches arbitrary: w) simp_all
next
  show "slept (tick interval fetched w) \<noteq> []"
    using run_ticks_length [of interval fetched w] by simp
next
  show "last (slept (tick interval fetched w)) = interval"
    using run_ticks_length [of interval fetched w] by simp
qed


theorem run_collection_loop_isolation_witness:
  "tick 180 (Inr [event_null_track, event_a]) w_ready
     = sleep 180 (log_msg ERROR ''Error in collection loop''
         (log_msg ERROR ''Activity data'' (log_msg ERROR ''Error storing activity'' w_ready)))"
  using run_collection_loop_isolation [where pre = "[]" and w = w_ready and ?w1.0 = w_ready
      and a = event_null_track and rest = "[event_a]" and interval = 180
      and e = "AttributeError ''object has no attribute get''"
      and ?w2.0 = "log_msg ERROR ''Activity data'' (log_msg ERROR ''Error storing activity'' w_ready)"]
    ingest_null_track [of w_ready]
  by (simp add: return_val_def)

text \<open>
  Claim C7 as stated fails for the rest of the batch: with a first candidate whose track
  is \<open>null\<close>, the second candidate is not ingested in that tick, although the same
  candidate alone is.
\<close>

theorem run_collection_loop_partial_batch_counterexample:
  "users_tbl (committed (tick 180 (Inr [event_null_track, event_a]) w_ready)) = Some [] \<and>
   streams (committed (tick 180 (Inr [event_null_track, event_a]) w_ready)) = [] \<and>
   users_tbl (committed (tick 180 (Inr [event_a]) w_ready))
     = Some [[SText ''spotify:user:bob'', SText ''Bob'', SNull]]"
proof -
  have t1: "tick 180 (Inr [event_null_track, event_a]) w_ready
     = sleep 180 (log_msg ERROR ''Error in collection loop''
         (log_msg ERROR ''Activity data'' (log_msg ERROR ''Error storing activity'' w_ready)))"
    using ingest_null_track [of w_ready]
    by (simp add: tick_def tick_body_def and_then_def)
  have c: "committed w_ready = \<lparr>users_tbl = Some [], tracks_tbl = Some [],
      user_tables_tbl = Some [], streams = [], indexes = []\<rparr>"
    by (simp add: w_ready_def start_world_def)
  from store_activity_valid [OF w_ready_facts(1,2) event_a_values bob w_ready_facts(3,4,5)]
  obtain w3 where w3: "store_activity event_a w_ready = (Inr (), w3)"
    "current_db w3 = stored_rows ''user_bob_listening_activity''
        [SText ''spotify:user:bob'', SText ''Bob'', SNull]
        [SText ''spotify:track:1'', SText ''Song A'', SNull, SNull, SNull, SNull, SNull]
        [SInt 1700000000000, SText ''spotify:track:1'', SNull, SNull, SNull]
        (ensure_stream ''spotify:user:bob'' ''user_bob_listening_activity'' (clock w_ready)
           (current_db w_ready))"
    "committed w3 = current_db w3"
    by blast
  have d: "is_dict event_a" by (simp add: is_dict_def event_a_def)
  have t2: "tick 180 (Inr [event_a]) w_ready = sleep 180 (log_msg INFO ''Stored activities'' w3)"
    using w3(1) d
    by (simp add: tick_def tick_body_def and_then_def ingest_one_def return_val_def)
  have u0: "users_tbl (current_db w_ready) = Some []"
    by (simp add: w_ready_def start_world_def current_db_def)
  have u: "users_tbl (committed w3) = Some [[SText ''spotify:user:bob'', SText ''Bob'', SNull]]"
    unfolding w3(3) w3(2) using stored_rows_tables ensure_stream_facts u0
    by (simp add: upsert_def)
  show ?thesis
    unfolding t1 t2 using c u by (simp add: sleep_def log_msg_def)
qed


section \<open>Properties of the queries\<close>






end
